theory Spec2Isabelle
  imports Main "HOL-Library.Word" "HOL-Library.Sublist"
begin

section \<open>Texture resolution: \<open>RprUsdMaterialRegistry::CommitResources\<close>\<close>

text \<open>
  The image cache, the texture storage and the UDIM helpers are declared outside
  \<open>materialRegistry.cpp\<close>; they are taken as parameters, gathered in one record.
  Backend images and raw texture payloads are opaque handles.
\<close>

type_synonym RprUsdCoreImage = nat
type_synonym RprUsdTextureData = nat
type_synonym UDIMTile = "nat \<times> RprUsdTextureData"

record TextureCommit =
  filepath :: string
  colorspace :: string
  wrapType :: nat
  numComponentsRequired :: nat

record UniqueTextureInfo =
  path :: string
  udimTileId :: nat
  data :: "RprUsdTextureData option"

text \<open>
  Every call that leaves the function is recorded, in program order: image-cache requests
  with their five arguments, completion callbacks with the index of the commit they belong
  to, existence probes, raw loads and the error report of a failed load.
\<close>

datatype event =
    GetImageCall string string nat "UDIMTile list" nat
  | SetTextureCallback nat "RprUsdCoreImage option"
  | FileAccess string
  | TextureDataNew string
  | FailedToLoad string

record 'c Collaborators =
  GetImage :: "'c \<Rightarrow> string \<Rightarrow> string \<Rightarrow> nat \<Rightarrow> UDIMTile list \<Rightarrow> nat
                 \<Rightarrow> RprUsdCoreImage option \<times> 'c"
  RprUsdGetUDIMFormatString :: "string \<Rightarrow> string option"
  TfStringPrintf :: "string \<Rightarrow> nat \<Rightarrow> string"
  ArchFileAccess :: "string \<Rightarrow> int"
  LoadTextureData :: "string \<Rightarrow> RprUsdTextureData option"

record 'c CommitState =
  imageCache :: 'c
  uniqueTextures :: "UniqueTextureInfo list"
  uniqueTexturesMapping :: "(string \<times> nat) list"
  uniqueTextureIndicesPerCommit :: "nat list list"
  events :: "event list"

definition emit :: "event \<Rightarrow> 'c CommitState \<Rightarrow> 'c CommitState" where
  "emit e s = s\<lparr>events := events s @ [e]\<rparr>"

text \<open>
  The lambda \<open>getUniqueTextureIndex\<close>: \<open>emplace\<close> inserts the path with the current size of
  the map as its index unless the path is already a key; a new unique texture is appended
  only when the insertion took place.
\<close>

definition getUniqueTextureIndex ::
  "string \<Rightarrow> nat \<Rightarrow> 'c CommitState \<Rightarrow> nat \<times> 'c CommitState" where
  "getUniqueTextureIndex p tileId s =
     (case map_of (uniqueTexturesMapping s) p of
        Some idx \<Rightarrow> (idx, s)
      | None \<Rightarrow>
          (length (uniqueTexturesMapping s),
           s\<lparr>uniqueTexturesMapping :=
                uniqueTexturesMapping s @ [(p, length (uniqueTexturesMapping s))],
              uniqueTextures :=
                uniqueTextures s @ [\<lparr>path = p, udimTileId = tileId, data = None\<rparr>]\<rparr>))"

definition kStartTile :: nat where "kStartTile = 1001"
definition kEndTile :: nat where "kEndTile = 1100"

text \<open>The inner loop over tile ids; \<open>acc\<close> is \<open>commitTexIndices\<close>.\<close>

fun probeTiles ::
  "'c Collaborators \<Rightarrow> string \<Rightarrow> nat list \<Rightarrow> nat list \<Rightarrow> 'c CommitState
     \<Rightarrow> nat list \<times> 'c CommitState" where
  "probeTiles E formatString [] acc s = (acc, s)"
| "probeTiles E formatString (tileId # rest) acc s =
     (let tilePath = TfStringPrintf E formatString tileId;
          s1 = emit (FileAccess tilePath) s
      in if ArchFileAccess E tilePath = 0
         then (case getUniqueTextureIndex tilePath tileId s1 of
                 (idx, s2) \<Rightarrow> probeTiles E formatString rest (acc @ [idx]) s2)
         else probeTiles E formatString rest acc s1)"

text \<open>One iteration of the first loop, for the commit at index \<open>i\<close>.\<close>

definition collectCommit ::
  "'c Collaborators \<Rightarrow> nat \<Rightarrow> TextureCommit \<Rightarrow> 'c CommitState \<Rightarrow> 'c CommitState" where
  "collectCommit E i commit s =
     (case GetImage E (imageCache s) (filepath commit) (colorspace commit)
             (wrapType commit) [] 0 of
        (rprImage, cache') \<Rightarrow>
          (let s1 = emit (GetImageCall (filepath commit) (colorspace commit)
                            (wrapType commit) [] 0) (s\<lparr>imageCache := cache'\<rparr>)
           in case rprImage of
                Some img \<Rightarrow>
                  (emit (SetTextureCallback i (Some img)) s1)
                    \<lparr>uniqueTextureIndicesPerCommit :=
                       uniqueTextureIndicesPerCommit s1 @ [[]]\<rparr>
              | None \<Rightarrow>
                  (case RprUsdGetUDIMFormatString E (filepath commit) of
                     Some formatString \<Rightarrow>
                       (case probeTiles E formatString [kStartTile ..< Suc kEndTile] [] s1 of
                          (commitTexIndices, s2) \<Rightarrow>
                            s2\<lparr>uniqueTextureIndicesPerCommit :=
                                 uniqueTextureIndicesPerCommit s2 @ [commitTexIndices]\<rparr>)
                   | None \<Rightarrow>
                       (case getUniqueTextureIndex (filepath commit) 0 s1 of
                          (idx, s2) \<Rightarrow>
                            s2\<lparr>uniqueTextureIndicesPerCommit :=
                                 uniqueTextureIndicesPerCommit s2 @ [[idx]]\<rparr>))))"

fun collectLoop ::
  "'c Collaborators \<Rightarrow> nat \<Rightarrow> TextureCommit list \<Rightarrow> 'c CommitState \<Rightarrow> 'c CommitState" where
  "collectLoop E i [] s = s"
| "collectLoop E i (commit # rest) s = collectLoop E (Suc i) rest (collectCommit E i commit s)"

text \<open>
  The parallel load. Each task reads one path and writes its own slot of
  \<open>uniqueTextures\<close>, so the outcome does not depend on the schedule; the loads are
  recorded in index order.
\<close>

definition loadOne :: "'c Collaborators \<Rightarrow> UniqueTextureInfo \<Rightarrow> UniqueTextureInfo" where
  "loadOne E t =
     (case LoadTextureData E (path t) of Some d \<Rightarrow> t\<lparr>data := Some d\<rparr> | None \<Rightarrow> t)"

definition loadEvents :: "'c Collaborators \<Rightarrow> UniqueTextureInfo \<Rightarrow> event list" where
  "loadEvents E t =
     (case LoadTextureData E (path t) of
        Some d \<Rightarrow> [TextureDataNew (path t)]
      | None \<Rightarrow> [TextureDataNew (path t), FailedToLoad (path t)])"

definition loadTextures :: "'c Collaborators \<Rightarrow> 'c CommitState \<Rightarrow> 'c CommitState" where
  "loadTextures E s =
     s\<lparr>uniqueTextures := map (loadOne E) (uniqueTextures s),
       events := events s @ concat (map (loadEvents E) (uniqueTextures s))\<rparr>"

text \<open>The tile list of one commit: textures whose payload is missing are left out.\<close>

fun gatherTiles :: "UniqueTextureInfo list \<Rightarrow> nat list \<Rightarrow> UDIMTile list" where
  "gatherTiles uts [] = []"
| "gatherTiles uts (uniqueTextureIdx # rest) =
     (case data (uts ! uniqueTextureIdx) of
        None \<Rightarrow> gatherTiles uts rest
      | Some d \<Rightarrow> (udimTileId (uts ! uniqueTextureIdx), d) # gatherTiles uts rest)"

definition createImage ::
  "'c Collaborators \<Rightarrow> nat \<Rightarrow> TextureCommit \<Rightarrow> 'c CommitState \<Rightarrow> 'c CommitState" where
  "createImage E i commit s =
     (let commitTexIndices = uniqueTextureIndicesPerCommit s ! i
      in if commitTexIndices = [] then s
         else
           (let tiles = gatherTiles (uniqueTextures s) commitTexIndices
            in case GetImage E (imageCache s) (filepath commit) (colorspace commit)
                      (wrapType commit) tiles (numComponentsRequired commit) of
                 (coreImage, cache') \<Rightarrow>
                   emit (SetTextureCallback i coreImage)
                     (emit (GetImageCall (filepath commit) (colorspace commit)
                              (wrapType commit) tiles (numComponentsRequired commit))
                        (s\<lparr>imageCache := cache'\<rparr>))))"

fun createImages ::
  "'c Collaborators \<Rightarrow> nat \<Rightarrow> TextureCommit list \<Rightarrow> 'c CommitState \<Rightarrow> 'c CommitState" where
  "createImages E i [] s = s"
| "createImages E i (commit # rest) s = createImages E (Suc i) rest (createImage E i commit s)"

definition initCommitState :: "'c \<Rightarrow> 'c CommitState" where
  "initCommitState cache =
     \<lparr>imageCache = cache, uniqueTextures = [], uniqueTexturesMapping = [],
      uniqueTextureIndicesPerCommit = [], events = []\<rparr>"

definition phase1 :: "'c Collaborators \<Rightarrow> TextureCommit list \<Rightarrow> 'c \<Rightarrow> 'c CommitState" where
  "phase1 E commits cache = collectLoop E 0 commits (initCommitState cache)"

definition phase2 :: "'c Collaborators \<Rightarrow> TextureCommit list \<Rightarrow> 'c \<Rightarrow> 'c CommitState" where
  "phase2 E commits cache = loadTextures E (phase1 E commits cache)"

definition phase3 :: "'c Collaborators \<Rightarrow> TextureCommit list \<Rightarrow> 'c \<Rightarrow> 'c CommitState" where
  "phase3 E commits cache = createImages E 0 commits (phase2 E commits cache)"

text \<open>
  \<open>CommitResources\<close> maps the queue \<open>m_textureCommits\<close> and the cache to the queue left
  behind, the cache and the calls made.
\<close>

definition CommitResources ::
  "'c Collaborators \<Rightarrow> TextureCommit list \<Rightarrow> 'c \<Rightarrow> TextureCommit list \<times> 'c \<times> event list" where
  "CommitResources E m_textureCommits cache =
     (if m_textureCommits = [] then (m_textureCommits, cache, [])
      else (let s = phase3 E m_textureCommits cache in ([], imageCache s, events s)))"

subsection \<open>Notions used to state the properties of the texture resolver\<close>

fun isGetImage :: "event \<Rightarrow> bool" where
  "isGetImage (GetImageCall p cs w tiles n) = True"
| "isGetImage e = False"

fun isCallbackOf :: "nat \<Rightarrow> event \<Rightarrow> bool" where
  "isCallbackOf i (SetTextureCallback j img) = (i = j)"
| "isCallbackOf i e = False"

definition consistent :: "'c CommitState \<Rightarrow> bool" where
  "consistent s \<longleftrightarrow>
     uniqueTexturesMapping s
       = zip (map path (uniqueTextures s)) [0 ..< length (uniqueTextures s)]
     \<and> distinct (map path (uniqueTextures s))"

definition tileEvents :: "'c Collaborators \<Rightarrow> string \<Rightarrow> nat list \<Rightarrow> event list" where
  "tileEvents E f ts = map (\<lambda>t. FileAccess (TfStringPrintf E f t)) ts"

definition existingTiles :: "'c Collaborators \<Rightarrow> string \<Rightarrow> nat list \<Rightarrow> string list" where
  "existingTiles E f ts = filter (\<lambda>p. ArchFileAccess E p = 0) (map (TfStringPrintf E f) ts)"

definition cacheLookup ::
  "'c Collaborators \<Rightarrow> TextureCommit \<Rightarrow> 'c \<Rightarrow> RprUsdCoreImage option \<times> 'c" where
  "cacheLookup E commit c =
     GetImage E c (filepath commit) (colorspace commit) (wrapType commit) [] 0"

definition lookupEvent :: "TextureCommit \<Rightarrow> event" where
  "lookupEvent commit =
     GetImageCall (filepath commit) (colorspace commit) (wrapType commit) [] 0"

definition allTiles :: "nat list" where
  "allTiles = [kStartTile ..< Suc kEndTile]"

text \<open>
  The calls one iteration makes and the paths its index list points at, written as
  functions of the commit and of the cache the iteration starts from.
\<close>

definition commitEvents ::
  "'c Collaborators \<Rightarrow> nat \<Rightarrow> TextureCommit \<Rightarrow> 'c \<Rightarrow> event list" where
  "commitEvents E i commit c =
     lookupEvent commit #
       (case fst (cacheLookup E commit c) of
          Some img \<Rightarrow> [SetTextureCallback i (Some img)]
        | None \<Rightarrow>
            (case RprUsdGetUDIMFormatString E (filepath commit) of
               Some f \<Rightarrow> tileEvents E f allTiles
             | None \<Rightarrow> []))"

definition commitPaths :: "'c Collaborators \<Rightarrow> TextureCommit \<Rightarrow> 'c \<Rightarrow> string list" where
  "commitPaths E commit c =
     (case fst (cacheLookup E commit c) of
        Some img \<Rightarrow> []
      | None \<Rightarrow>
          (case RprUsdGetUDIMFormatString E (filepath commit) of
             Some f \<Rightarrow> existingTiles E f allTiles
           | None \<Rightarrow> [filepath commit]))"

fun phase1Events ::
  "'c Collaborators \<Rightarrow> nat \<Rightarrow> TextureCommit list \<Rightarrow> 'c \<Rightarrow> event list" where
  "phase1Events E i [] c = []"
| "phase1Events E i (commit # rest) c =
     commitEvents E i commit c @ phase1Events E (Suc i) rest (snd (cacheLookup E commit c))"

definition inRange :: "'c CommitState \<Rightarrow> bool" where
  "inRange s =
     list_all (list_all (\<lambda>k. k < length (uniqueTextures s))) (uniqueTextureIndicesPerCommit s)"

fun isLoadOf :: "string \<Rightarrow> event \<Rightarrow> bool" where
  "isLoadOf p (TextureDataNew q) = (p = q)"
| "isLoadOf p e = False"

text \<open>The image requests of the third loop, from index \<open>i\<close> on.\<close>

fun phase3Requests ::
  "UniqueTextureInfo list \<Rightarrow> nat list list \<Rightarrow> nat \<Rightarrow> TextureCommit list \<Rightarrow> event list" where
  "phase3Requests uts idxs i [] = []"
| "phase3Requests uts idxs i (commit # rest) =
     (if idxs ! i = [] then []
      else [GetImageCall (filepath commit) (colorspace commit) (wrapType commit)
              (gatherTiles uts (idxs ! i)) (numComponentsRequired commit)])
     @ phase3Requests uts idxs (Suc i) rest"

fun isFileAccess :: "event \<Rightarrow> bool" where
  "isFileAccess (FileAccess p) = True"
| "isFileAccess e = False"

subsection \<open>A concrete storage, cache and queue\<close>

text \<open>Decimal printing of a tile id, standing for the \<open>%i\<close> of the format string.\<close>

fun decimal :: "nat \<Rightarrow> string" where
  "decimal n =
     (if n < 10 then [char_of (48 + n)] else decimal (n div 10) @ [char_of (48 + n mod 10)])"

text \<open>
  Storage holds \<open>a.png\<close> and the tiles 1001, 1003 and 1010 of \<open>t.<UDIM>.png\<close>. The cache
  is the list of paths it has an image for; a request with tiles creates image 2 and
  stores the path.
\<close>

definition sampleCollaborators :: "string list Collaborators" where
  "sampleCollaborators =
     \<lparr>GetImage = (\<lambda>c p cs w tiles n.
          if p \<in> set c then (Some 1, c)
          else if tiles = [] then (None, c) else (Some 2, p # c)),
      RprUsdGetUDIMFormatString = (\<lambda>p. if p = ''t.<UDIM>.png'' then Some ''t.%i.png'' else None),
      TfStringPrintf = (\<lambda>f t. ''t.'' @ decimal t @ ''.png''),
      ArchFileAccess = (\<lambda>p. if p \<in> {''a.png'', ''t.1001.png'', ''t.1003.png'', ''t.1010.png''}
                            then 0 else - 1),
      LoadTextureData = (\<lambda>p. if p = ''a.png'' then Some 7 else None)\<rparr>"

text \<open>The same collaborators over a storage that holds no file at all.\<close>

definition emptyStorage :: "string list Collaborators" where
  "emptyStorage = sampleCollaborators\<lparr>ArchFileAccess := (\<lambda>p. - 1)\<rparr>"

definition plainCommit :: TextureCommit where
  "plainCommit = \<lparr>filepath = ''a.png'', colorspace = ''srgb'', wrapType = 0,
                   numComponentsRequired = 3\<rparr>"

definition udimCommit :: TextureCommit where
  "udimCommit = \<lparr>filepath = ''t.<UDIM>.png'', colorspace = ''srgb'', wrapType = 0,
                  numComponentsRequired = 4\<rparr>"

text \<open>No payload is attached before the load.\<close>

definition unloaded :: "'c CommitState \<Rightarrow> bool" where
  "unloaded s = list_all (\<lambda>t. data t = None) (uniqueTextures s)"

section \<open>Graph building: \<open>RprUsdMaterialRegistry::CreateMaterial\<close>\<close>

type_synonym SdfPath = string
type_synonym TfToken = string

text \<open>
  A \<open>VtValue\<close> is empty or holds a value of some type. The code only asks whether it
  holds a (possibly null) shared pointer to a backend material node, an \<open>int\<close> or a
  string; backend nodes are handles.
\<close>

datatype VtValue =
    VtEmpty
  | VtMaterialNode "nat option"
  | VtInt "32 word"
  | VtString string
  | VtOther nat

type_synonym NodeParams = "(TfToken \<times> VtValue) list"

record HdMaterialConnection2 =
  upstreamNode :: SdfPath
  upstreamOutputName :: TfToken

text \<open>
  The \<open>std::map\<close>s of the network are association lists holding their entries in
  iteration order; \<open>find\<close> is \<open>map_of\<close>.
\<close>

record HdMaterialNode2 =
  nodeTypeId :: TfToken
  parameters :: NodeParams
  inputConnections :: "(TfToken \<times> HdMaterialConnection2 list) list"

record HdMaterialNetwork2 =
  nodes :: "(SdfPath \<times> HdMaterialNode2) list"
  terminals :: "(TfToken \<times> HdMaterialConnection2) list"

text \<open>
  The builder context. \<open>backend\<close> stands for everything else a factory can reach and
  change through the context (the rendering context, the image cache).
\<close>

record 'x RprUsd_MaterialBuilderContext =
  currentNodePath :: "SdfPath option"
  uvPrimvarName :: string
  isShadowCatcher :: bool
  isReflectionCatcher :: bool
  displacementScale :: VtValue
  backend :: 'x

text \<open>The ways a node factory comes back: a node, a null pointer, or one of the two exceptions
  that \<open>CreateMaterial\<close> catches.\<close>

datatype 'n FactoryResult =
    Created 'n
  | ReturnsNull
  | ThrowsNodeError string
  | ThrowsNodeEmpty

text \<open>
  What \<open>CreateMaterial\<close> uses and this file does not define: the registered factories
  (\<open>m_registeredNodesLookup\<close> followed by \<open>m_registeredNodes[...].factory\<close>), the Houdini
  predicate (\<open>None\<close>: not a principled shader node, \<open>Some True\<close>: its surface part,
  \<open>Some False\<close>: its displacement part), the constructor of the merged Houdini node, the
  interface of a backend node of type \<open>'n\<close>, the tokens, and for the MaterialX path the Sdr
  lookup and the chain from the network to \<open>RprUsd_CreateRprMtlxFromString\<close>.
\<close>

record ('n, 'x) Backend =
  factoryOf :: "TfToken \<Rightarrow> ('x RprUsd_MaterialBuilderContext \<Rightarrow> NodeParams
                   \<Rightarrow> 'n FactoryResult \<times> 'x RprUsd_MaterialBuilderContext) option"
  IsHoudiniPrincipledShaderHydraNode :: "SdfPath \<Rightarrow> bool option"
  HoudiniPrincipledNode :: "'x RprUsd_MaterialBuilderContext \<Rightarrow> NodeParams \<Rightarrow> NodeParams option
                   \<Rightarrow> 'n \<times> 'x RprUsd_MaterialBuilderContext"
  SetInput :: "TfToken \<Rightarrow> VtValue \<Rightarrow> 'n \<Rightarrow> 'n"
  GetOutput :: "TfToken \<Rightarrow> 'n \<Rightarrow> VtValue"
  surfaceToken :: TfToken
  volumeToken :: TfToken
  displacementToken :: TfToken
  idToken :: TfToken
  cryptomatteNameToken :: TfToken
  GetShaderNodeByIdentifierAndType :: "TfToken \<Rightarrow> bool"
  CreateRprMtlx :: "HdMaterialNetwork2 \<Rightarrow> HdMaterialNode2 \<Rightarrow> SdfPath \<Rightarrow> nat option"

text \<open>
  Diagnostics and calls into backend nodes, in program order. \<open>WireInputs p\<close> marks the
  start of the block guarded by \<open>visited.count(nodePath) == 0\<close> for the node at \<open>p\<close>.
\<close>

datatype step =
    Warn_UnknownNodeType TfToken
  | Error_FailedToCreate SdfPath TfToken string
  | Warn_EmptyNode SdfPath
  | Error_InvalidConnection SdfPath
  | Error_ConnectedArrayElements
  | Error_TerminalNotMaterialNode
  | WireInputs SdfPath
  | SetInputCall SdfPath TfToken VtValue
  | GetOutputCall SdfPath TfToken
  | MaterialNodeSetID nat "32 word"
  | SetName nat string

record ('n, 'x) BuildState =
  materialNodes :: "SdfPath \<rightharpoonup> 'n"
  builderContext :: "'x RprUsd_MaterialBuilderContext"
  houdiniPrincipledShaderNodePath :: "SdfPath option"
  houdiniPrincipledShaderSurfaceParams :: "NodeParams option"
  houdiniPrincipledShaderDispParams :: "NodeParams option"
  visited :: "SdfPath set"
  trace :: "step list"

definition record_step :: "step \<Rightarrow> ('n, 'x) BuildState \<Rightarrow> ('n, 'x) BuildState" where
  "record_step e s = s\<lparr>trace := trace s @ [e]\<rparr>"

subsection \<open>The per-node pass\<close>

text \<open>One iteration of the loop over \<open>network.nodes\<close>, with its \<open>try\<close> block.\<close>

definition createNode ::
  "('n, 'x) Backend \<Rightarrow> SdfPath \<times> HdMaterialNode2 \<Rightarrow> ('n, 'x) BuildState \<Rightarrow> ('n, 'x) BuildState" where
  "createNode B entry s =
     (case entry of (nodePath, node) \<Rightarrow>
       (let s0 = s\<lparr>builderContext := (builderContext s)\<lparr>currentNodePath := Some nodePath\<rparr>\<rparr>
        in case factoryOf B (nodeTypeId node) of
             Some factory \<Rightarrow>
               (case factory (builderContext s0) (parameters node) of
                  (Created materialNode, ctx) \<Rightarrow>
                    s0\<lparr>builderContext := ctx,
                       materialNodes := (materialNodes s0)(nodePath \<mapsto> materialNode)\<rparr>
                | (ReturnsNull, ctx) \<Rightarrow> s0\<lparr>builderContext := ctx\<rparr>
                | (ThrowsNodeError what, ctx) \<Rightarrow>
                    record_step (Error_FailedToCreate nodePath (nodeTypeId node) what)
                      (s0\<lparr>builderContext := ctx\<rparr>)
                | (ThrowsNodeEmpty, ctx) \<Rightarrow>
                    record_step (Warn_EmptyNode nodePath) (s0\<lparr>builderContext := ctx\<rparr>))
           | None \<Rightarrow>
               (case IsHoudiniPrincipledShaderHydraNode B nodePath of
                  Some isSurfaceNode \<Rightarrow>
                    (if isSurfaceNode
                     then s0\<lparr>houdiniPrincipledShaderNodePath := Some nodePath,
                             houdiniPrincipledShaderSurfaceParams := Some (parameters node)\<rparr>
                     else s0\<lparr>houdiniPrincipledShaderDispParams := Some (parameters node)\<rparr>)
                | None \<Rightarrow> record_step (Warn_UnknownNodeType (nodeTypeId node)) s0)))"

fun createNodes ::
  "('n, 'x) Backend \<Rightarrow> (SdfPath \<times> HdMaterialNode2) list \<Rightarrow> ('n, 'x) BuildState
     \<Rightarrow> ('n, 'x) BuildState" where
  "createNodes B [] s = s"
| "createNodes B (entry # rest) s = createNodes B rest (createNode B entry s)"

text \<open>
  The block after the loop. The two surface pointers are set together, so the surface
  parameters are there whenever the path is.
\<close>

definition createHoudiniNode :: "('n, 'x) Backend \<Rightarrow> ('n, 'x) BuildState \<Rightarrow> ('n, 'x) BuildState" where
  "createHoudiniNode B s =
     (case houdiniPrincipledShaderNodePath s of
        None \<Rightarrow> s
      | Some nodePath \<Rightarrow>
          (case houdiniPrincipledShaderSurfaceParams s of
             None \<Rightarrow> s
           | Some surfaceParams \<Rightarrow>
               (case HoudiniPrincipledNode B (builderContext s) surfaceParams
                       (houdiniPrincipledShaderDispParams s) of
                  (materialNode, ctx) \<Rightarrow>
                    s\<lparr>builderContext := ctx,
                      materialNodes := (materialNodes s)(nodePath \<mapsto> materialNode)\<rparr>)))"

subsection \<open>Output resolution\<close>

text \<open>
  \<open>materialNode->SetInput\<close> and \<open>materialNode->GetOutput\<close> on the node stored at a path.
  The pointer was found in \<open>materialNodes\<close> before, and resolution never removes a key,
  so the \<open>None\<close> branches are not reached.
\<close>

definition callSetInput ::
  "('n, 'x) Backend \<Rightarrow> SdfPath \<Rightarrow> TfToken \<Rightarrow> VtValue \<Rightarrow> ('n, 'x) BuildState
     \<Rightarrow> ('n, 'x) BuildState" where
  "callSetInput B nodePath inputId v s =
     (case materialNodes s nodePath of
        None \<Rightarrow> s
      | Some materialNode \<Rightarrow>
          record_step (SetInputCall nodePath inputId v)
            (s\<lparr>materialNodes := (materialNodes s)(nodePath \<mapsto> SetInput B inputId v materialNode)\<rparr>))"

definition callGetOutput ::
  "('n, 'x) Backend \<Rightarrow> SdfPath \<Rightarrow> TfToken \<Rightarrow> ('n, 'x) BuildState
     \<Rightarrow> VtValue option \<times> ('n, 'x) BuildState" where
  "callGetOutput B nodePath outputName s =
     (case materialNodes s nodePath of
        None \<Rightarrow> (Some VtEmpty, s)
      | Some materialNode \<Rightarrow>
          (Some (GetOutput B outputName materialNode),
           record_step (GetOutputCall nodePath outputName) s))"

text \<open>
  The recursive lambda \<open>getNodeOutput\<close> and its loop over the input connections of a
  node. The recursion of the source has no bound (a cycle of nodes without backend node
  never returns), so the model counts nested calls: with \<open>fuel\<close> used up the result is
  \<open>None\<close>, and the state reached so far is still returned.
\<close>

fun getNodeOutput ::
  "('n, 'x) Backend \<Rightarrow> HdMaterialNetwork2 \<Rightarrow> nat \<Rightarrow> HdMaterialConnection2
     \<Rightarrow> ('n, 'x) BuildState \<Rightarrow> VtValue option \<times> ('n, 'x) BuildState"
and setNodeInputs ::
  "('n, 'x) Backend \<Rightarrow> HdMaterialNetwork2 \<Rightarrow> nat \<Rightarrow> SdfPath
     \<Rightarrow> (TfToken \<times> HdMaterialConnection2 list) list
     \<Rightarrow> ('n, 'x) BuildState \<Rightarrow> bool \<times> ('n, 'x) BuildState" where
  "getNodeOutput B network 0 nodeConnection s = (None, s)"
| "getNodeOutput B network (Suc fuel) nodeConnection s =
     (let nodePath = upstreamNode nodeConnection
      in case map_of (nodes network) nodePath of
           None \<Rightarrow> (Some VtEmpty, record_step (Error_InvalidConnection nodePath) s)
         | Some node \<Rightarrow>
             (case materialNodes s nodePath of
                Some materialNode \<Rightarrow>
                  (if nodePath \<notin> visited s
                   then (case setNodeInputs B network fuel nodePath (inputConnections node)
                                (record_step (WireInputs nodePath)
                                   (s\<lparr>visited := insert nodePath (visited s)\<rparr>)) of
                           (True, s') \<Rightarrow>
                             callGetOutput B nodePath (upstreamOutputName nodeConnection) s'
                         | (False, s') \<Rightarrow> (None, s'))
                   else callGetOutput B nodePath (upstreamOutputName nodeConnection) s)
              | None \<Rightarrow>
                  (case inputConnections node of
                     [] \<Rightarrow> (Some VtEmpty, s)
                   | (inputId, connections) # others \<Rightarrow>
                       (case connections of
                          [] \<Rightarrow> (Some VtEmpty, s)
                        | [connection] \<Rightarrow> getNodeOutput B network fuel connection s
                        | c1 # c2 # cs \<Rightarrow>
                            (Some VtEmpty, record_step Error_ConnectedArrayElements s)))))"
| "setNodeInputs B network fuel nodePath [] s = (True, s)"
| "setNodeInputs B network fuel nodePath ((inputId, connections) # rest) s =
     (case connections of
        [] \<Rightarrow> setNodeInputs B network fuel nodePath rest s
      | [connection] \<Rightarrow>
          (case getNodeOutput B network fuel connection s of
             (Some nodeOutput, s') \<Rightarrow>
               setNodeInputs B network fuel nodePath rest
                 (if nodeOutput \<noteq> VtEmpty then callSetInput B nodePath inputId nodeOutput s'
                  else s')
           | (None, s') \<Rightarrow> (False, s'))
      | c1 # c2 # cs \<Rightarrow>
          setNodeInputs B network fuel nodePath rest
            (record_step Error_ConnectedArrayElements s))"

definition getTerminalOutput ::
  "('n, 'x) Backend \<Rightarrow> HdMaterialNetwork2 \<Rightarrow> nat \<Rightarrow> TfToken \<Rightarrow> ('n, 'x) BuildState
     \<Rightarrow> VtValue option \<times> ('n, 'x) BuildState" where
  "getTerminalOutput B network fuel terminalName s =
     (case map_of (terminals network) terminalName of
        None \<Rightarrow> (Some VtEmpty, s)
      | Some nodeConnection \<Rightarrow> getNodeOutput B network fuel nodeConnection s)"

subsection \<open>Material assembly\<close>

record 'n RprUsdGraphBasedMaterial =
  ownedMaterialNodes :: "SdfPath \<rightharpoonup> 'n"
  m_volumeNode :: "nat option"
  m_surfaceNode :: "nat option"
  m_displacementNode :: "nat option"
  m_isShadowCatcher :: bool
  m_isReflectionCatcher :: bool
  m_uvPrimvarName :: TfToken
  m_displacementScale :: VtValue

text \<open>
  The two kinds of material \<open>CreateMaterial\<close> hands out: the wrapper around one retained
  MaterialX node, whose surface node is that node, and the graph-based material.
\<close>

datatype 'n RprUsdMaterial =
    RprUsdMaterial_RprApiMtlx nat
  | GraphBased "'n RprUsdGraphBasedMaterial"

text \<open>\<open>CreateMaterialXFromUsdShade\<close>, with its four early returns of a null pointer.\<close>

definition CreateMaterialXFromUsdShade ::
  "('n, 'x) Backend \<Rightarrow> SdfPath \<Rightarrow> HdMaterialNetwork2 \<Rightarrow> 'n RprUsdMaterial option" where
  "CreateMaterialXFromUsdShade B materialPath network =
     (case map_of (terminals network) (surfaceToken B) of
        None \<Rightarrow> None
      | Some nodeConnection \<Rightarrow>
          (case map_of (nodes network) (upstreamNode nodeConnection) of
             None \<Rightarrow> None
           | Some terminalNode \<Rightarrow>
               (if \<not> GetShaderNodeByIdentifierAndType B (nodeTypeId terminalNode) then None
                else (case CreateRprMtlx B network terminalNode materialPath of
                        None \<Rightarrow> None
                      | Some mtlxNode \<Rightarrow> Some (RprUsdMaterial_RprApiMtlx mtlxNode)))))"

text \<open>The lambda \<open>getTerminalRprNode\<close> of \<open>Finalize\<close>, with the error it may report.\<close>

definition getTerminalRprNode :: "VtValue \<Rightarrow> nat option \<times> step list" where
  "getTerminalRprNode terminalOutput =
     (case terminalOutput of
        VtEmpty \<Rightarrow> (None, [])
      | VtMaterialNode ptr \<Rightarrow> (ptr, [])
      | VtInt v \<Rightarrow> (None, [Error_TerminalNotMaterialNode])
      | VtString v \<Rightarrow> (None, [Error_TerminalNotMaterialNode])
      | VtOther v \<Rightarrow> (None, [Error_TerminalNotMaterialNode]))"

text \<open>
  \<open>Finalize\<close> fills the material, tags and names the surface node and reports whether any
  terminal node is there. \<open>materialId\<close> is a C \<open>int\<close>; the test \<open>materialId >= 0\<close> reads it
  signed.
\<close>

definition Finalize ::
  "'x RprUsd_MaterialBuilderContext \<Rightarrow> VtValue \<Rightarrow> VtValue \<Rightarrow> VtValue \<Rightarrow> string \<Rightarrow> 32 word
     \<Rightarrow> (SdfPath \<rightharpoonup> 'n) \<Rightarrow> 'n RprUsdGraphBasedMaterial \<times> bool \<times> step list" where
  "Finalize ctx surfaceOutput displacementOutput volumeOutput cryptomatteName materialId owned =
     (let volume = getTerminalRprNode volumeOutput;
          surface = getTerminalRprNode surfaceOutput;
          displacement = getTerminalRprNode displacementOutput;
          calls = (case fst surface of
                     None \<Rightarrow> []
                   | Some node \<Rightarrow>
                       (if 0 \<le> sint materialId then [MaterialNodeSetID node materialId] else [])
                       @ [SetName node cryptomatteName])
      in (\<lparr>ownedMaterialNodes = owned,
           m_volumeNode = fst volume,
           m_surfaceNode = fst surface,
           m_displacementNode = fst displacement,
           m_isShadowCatcher = isShadowCatcher ctx,
           m_isReflectionCatcher = isReflectionCatcher ctx,
           m_uvPrimvarName = uvPrimvarName ctx,
           m_displacementScale = displacementScale ctx\<rparr>,
          fst volume \<noteq> None \<or> fst surface \<noteq> None \<or> fst displacement \<noteq> None,
          snd volume @ snd surface @ snd displacement @ calls))"

text \<open>The identifier and the name read from the parameters of the surface terminal's node.\<close>

definition surfaceNodeParameters :: "('n, 'x) Backend \<Rightarrow> HdMaterialNetwork2 \<Rightarrow> NodeParams option" where
  "surfaceNodeParameters B network =
     (case map_of (terminals network) (surfaceToken B) of
        None \<Rightarrow> None
      | Some surfaceTerminal \<Rightarrow>
          (case map_of (nodes network) (upstreamNode surfaceTerminal) of
             None \<Rightarrow> None
           | Some surfaceNode \<Rightarrow> Some (parameters surfaceNode)))"

definition materialRprId :: "('n, 'x) Backend \<Rightarrow> HdMaterialNetwork2 \<Rightarrow> 32 word" where
  "materialRprId B network =
     (case surfaceNodeParameters B network of
        None \<Rightarrow> - 1
      | Some params \<Rightarrow>
          (case map_of params (idToken B) of
             Some (VtInt v) \<Rightarrow> v
           | _ \<Rightarrow> - 1))"

definition cryptomatteName :: "('n, 'x) Backend \<Rightarrow> SdfPath \<Rightarrow> HdMaterialNetwork2 \<Rightarrow> string" where
  "cryptomatteName B materialId network =
     (case surfaceNodeParameters B network of
        None \<Rightarrow> materialId
      | Some params \<Rightarrow>
          (case map_of params (cryptomatteNameToken B) of
             Some (VtString v) \<Rightarrow> v
           | _ \<Rightarrow> materialId))"

text \<open>\<open>std::string::c_str\<close> read as a C string: it ends before the first NUL character.\<close>

definition c_str :: "string \<Rightarrow> string" where
  "c_str str = takeWhile (\<lambda>c. c \<noteq> CHR 0x00) str"

definition initBuildState :: "'x \<Rightarrow> ('n, 'x) BuildState" where
  "initBuildState x =
     \<lparr>materialNodes = Map.empty,
      builderContext = \<lparr>currentNodePath = None, uvPrimvarName = [], isShadowCatcher = False,
                         isReflectionCatcher = False, displacementScale = VtEmpty,
                         backend = x\<rparr>,
      houdiniPrincipledShaderNodePath = None,
      houdiniPrincipledShaderSurfaceParams = None,
      houdiniPrincipledShaderDispParams = None,
      visited = {},
      trace = []\<rparr>"

text \<open>
  The graph-based part of \<open>CreateMaterial\<close>: the per-node pass, the Houdini node, the three
  terminals in the order volume, surface, displacement, then \<open>Finalize\<close>. The result is
  \<open>None\<close> when a resolution does not return within \<open>fuel\<close> nested calls; otherwise the
  material or the null pointer, with everything reported and called on the way.
\<close>

definition buildGraphMaterial ::
  "('n, 'x) Backend \<Rightarrow> SdfPath \<Rightarrow> HdMaterialNetwork2 \<Rightarrow> 'x \<Rightarrow> nat
     \<Rightarrow> ('n RprUsdMaterial option \<times> step list) option" where
  "buildGraphMaterial B materialId network x fuel =
     (let s2 = createHoudiniNode B (createNodes B (nodes network) (initBuildState x))
      in case getTerminalOutput B network fuel (volumeToken B) s2 of
           (None, s3) \<Rightarrow> None
         | (Some volumeOutput, s3) \<Rightarrow>
             (case getTerminalOutput B network fuel (surfaceToken B) s3 of
                (None, s4) \<Rightarrow> None
              | (Some surfaceOutput, s4) \<Rightarrow>
                  (case getTerminalOutput B network fuel (displacementToken B) s4 of
                     (None, s5) \<Rightarrow> None
                   | (Some displacementOutput, s5) \<Rightarrow>
                       (case Finalize (builderContext s5) surfaceOutput displacementOutput
                               volumeOutput (c_str (cryptomatteName B materialId network))
                               (materialRprId B network) (materialNodes s5) of
                          (out, ok, calls) \<Rightarrow>
                            Some (if ok then Some (GraphBased out) else None,
                                  trace s5 @ calls)))))"

text \<open>
  \<open>CreateMaterial\<close>, after the conversion of the legacy network map, which yields the
  network and \<open>isVolume\<close>.
\<close>

definition CreateMaterial ::
  "('n, 'x) Backend \<Rightarrow> SdfPath \<Rightarrow> HdMaterialNetwork2 \<Rightarrow> bool \<Rightarrow> 'x \<Rightarrow> nat
     \<Rightarrow> ('n RprUsdMaterial option \<times> step list) option" where
  "CreateMaterial B materialId network isVolume x fuel =
     (case (if \<not> isVolume then CreateMaterialXFromUsdShade B materialId network else None) of
        Some usdShadeMtlxMaterial \<Rightarrow> Some (Some usdShadeMtlxMaterial, [])
      | None \<Rightarrow> buildGraphMaterial B materialId network x fuel)"

text \<open>Notions for the per-node pass.\<close>

definition setCurrent :: "SdfPath option \<Rightarrow> ('n, 'x) BuildState \<Rightarrow> ('n, 'x) BuildState" where
  "setCurrent q s = s\<lparr>builderContext := (builderContext s)\<lparr>currentNodePath := q\<rparr>\<rparr>"

definition isSurfacePart :: "('n, 'x) Backend \<Rightarrow> SdfPath \<times> HdMaterialNode2 \<Rightarrow> bool" where
  "isSurfacePart B entry \<longleftrightarrow>
     factoryOf B (nodeTypeId (snd entry)) = None
     \<and> IsHoudiniPrincipledShaderHydraNode B (fst entry) = Some True"

definition isDisplacementPart :: "('n, 'x) Backend \<Rightarrow> SdfPath \<times> HdMaterialNode2 \<Rightarrow> bool" where
  "isDisplacementPart B entry \<longleftrightarrow>
     factoryOf B (nodeTypeId (snd entry)) = None
     \<and> IsHoudiniPrincipledShaderHydraNode B (fst entry) = Some False"

definition noPart :: "('n, 'x) Backend \<Rightarrow> SdfPath \<times> HdMaterialNode2 \<Rightarrow> bool" where
  "noPart B entry \<longleftrightarrow>
     (case factoryOf B (nodeTypeId (snd entry)) of
        Some factory \<Rightarrow> True
      | None \<Rightarrow> IsHoudiniPrincipledShaderHydraNode B (fst entry) = None)"

definition setSurface ::
  "SdfPath \<Rightarrow> NodeParams \<Rightarrow> ('n, 'x) BuildState \<Rightarrow> ('n, 'x) BuildState" where
  "setSurface p ps s =
     s\<lparr>houdiniPrincipledShaderNodePath := Some p,
       houdiniPrincipledShaderSurfaceParams := Some ps\<rparr>"

definition setDisplacement :: "NodeParams \<Rightarrow> ('n, 'x) BuildState \<Rightarrow> ('n, 'x) BuildState" where
  "setDisplacement ps s = s\<lparr>houdiniPrincipledShaderDispParams := Some ps\<rparr>"

fun failed :: "'n FactoryResult \<Rightarrow> bool" where
  "failed (Created n) = False"
| "failed r = True"

text \<open>What the \<open>catch\<close> clauses report for a factory result.\<close>

fun failureReport :: "SdfPath \<Rightarrow> HdMaterialNode2 \<Rightarrow> 'n FactoryResult \<Rightarrow> step list" where
  "failureReport p node (ThrowsNodeError what) = [Error_FailedToCreate p (nodeTypeId node) what]"
| "failureReport p node ThrowsNodeEmpty = [Warn_EmptyNode p]"
| "failureReport p node r = []"

text \<open>The last entry of the pass that satisfies a predicate.\<close>

definition lastPart ::
  "(SdfPath \<times> HdMaterialNode2 \<Rightarrow> bool) \<Rightarrow> (SdfPath \<times> HdMaterialNode2) list
     \<Rightarrow> (SdfPath \<times> HdMaterialNode2) option" where
  "lastPart P es = find P (rev es)"

subsection \<open>A concrete backend and concrete networks\<close>

text \<open>A backend node is its handle with the inputs bound so far; every output is the node.\<close>

datatype SampleNode = SampleNode nat "(TfToken \<times> VtValue) list"

definition sampleBackend :: "(SampleNode, unit) Backend" where
  "sampleBackend =
     \<lparr>factoryOf = (\<lambda>t.
          if t = ''const'' then Some (\<lambda>ctx ps. (Created (SampleNode 1 []), ctx))
          else if t = ''add'' then Some (\<lambda>ctx ps. (Created (SampleNode 2 []), ctx))
          else if t = ''null'' then Some (\<lambda>ctx ps. (ReturnsNull, ctx))
          else if t = ''broken'' then Some (\<lambda>ctx ps. (ThrowsNodeError ''bad'', ctx))
          else if t = ''hollow'' then Some (\<lambda>ctx ps. (ThrowsNodeEmpty, ctx))
          else None),
      IsHoudiniPrincipledShaderHydraNode = (\<lambda>p.
          if p = ''/hs'' then Some True else if p = ''/hd'' then Some False else None),
      HoudiniPrincipledNode = (\<lambda>ctx sp dp.
          (SampleNode 9 (sp @ (case dp of None \<Rightarrow> [] | Some d \<Rightarrow> d)), ctx)),
      SetInput = (\<lambda>i v n. case n of SampleNode h ins \<Rightarrow> SampleNode h (ins @ [(i, v)])),
      GetOutput = (\<lambda>out n. case n of SampleNode h ins \<Rightarrow> VtMaterialNode (Some h)),
      surfaceToken = ''surface'',
      volumeToken = ''volume'',
      displacementToken = ''displacement'',
      idToken = ''id'',
      cryptomatteNameToken = ''name'',
      GetShaderNodeByIdentifierAndType = (\<lambda>t. t = ''mtlx''),
      CreateRprMtlx = (\<lambda>network node p. Some 5)\<rparr>"

definition mkNode ::
  "TfToken \<Rightarrow> NodeParams \<Rightarrow> (TfToken \<times> HdMaterialConnection2 list) list \<Rightarrow> HdMaterialNode2" where
  "mkNode t ps ins = \<lparr>nodeTypeId = t, parameters = ps, inputConnections = ins\<rparr>"

definition conn :: "SdfPath \<Rightarrow> TfToken \<Rightarrow> HdMaterialConnection2" where
  "conn p out = \<lparr>upstreamNode = p, upstreamOutputName = out\<rparr>"

definition houdiniSurface :: "SdfPath \<times> HdMaterialNode2" where
  "houdiniSurface = (''/hs'', mkNode ''principled'' [(''basecolor'', VtOther 1)] [])"

definition houdiniDisplacement :: "SdfPath \<times> HdMaterialNode2" where
  "houdiniDisplacement = (''/hd'', mkNode ''principled'' [(''height'', VtOther 2)] [])"

definition constNode :: "SdfPath \<times> HdMaterialNode2" where
  "constNode = (''/a'', mkNode ''const'' [] [])"

text \<open>The paths whose input wiring was started, in the order of the trace.\<close>

fun wiredPaths :: "step list \<Rightarrow> SdfPath list" where
  "wiredPaths [] = []"
| "wiredPaths (WireInputs p # tr) = p # wiredPaths tr"
| "wiredPaths (e # tr) = wiredPaths tr"

text \<open>The steps that output resolution can add to the trace.\<close>

fun isResolveStep :: "step \<Rightarrow> bool" where
  "isResolveStep (Error_InvalidConnection p) = True"
| "isResolveStep Error_ConnectedArrayElements = True"
| "isResolveStep (WireInputs p) = True"
| "isResolveStep (SetInputCall p i v) = True"
| "isResolveStep (GetOutputCall p out) = True"
| "isResolveStep e = False"

definition wiredOnce :: "('n, 'x) BuildState \<Rightarrow> bool" where
  "wiredOnce s \<longleftrightarrow>
     distinct (wiredPaths (trace s)) \<and> list_all (\<lambda>p. p \<in> visited s) (wiredPaths (trace s))"

text \<open>What a resolution leaves alone: the set of built nodes, the context, the Houdini
  accumulators; the visited set and the trace only grow.\<close>

definition resolveFrame :: "('n, 'x) BuildState \<Rightarrow> ('n, 'x) BuildState \<Rightarrow> bool" where
  "resolveFrame s s' \<longleftrightarrow>
     dom (materialNodes s') = dom (materialNodes s)
     \<and> builderContext s' = builderContext s
     \<and> visited s \<subseteq> visited s'
     \<and> (\<exists>t. trace s' = trace s @ t \<and> list_all isResolveStep t)"

text \<open>A diamond: \<open>/d\<close> reads \<open>/b\<close> and \<open>/c\<close>, which both read \<open>/a\<close>.\<close>

definition diamond :: HdMaterialNetwork2 where
  "diamond =
     \<lparr>nodes = [(''/a'', mkNode ''const'' [] []),
               (''/b'', mkNode ''add'' [] [(''in'', [conn ''/a'' ''out''])]),
               (''/c'', mkNode ''add'' [] [(''in'', [conn ''/a'' ''out''])]),
               (''/d'', mkNode ''add'' [] [(''x'', [conn ''/b'' ''out'']),
                                           (''y'', [conn ''/c'' ''out''])])],
      terminals = [(''surface'', conn ''/d'' ''out'')]\<rparr>"

text \<open>A built node \<open>/b\<close> whose only input comes from a node of unknown type without inputs.\<close>

definition emptyInput :: HdMaterialNetwork2 where
  "emptyInput =
     \<lparr>nodes = [(''/b'', mkNode ''add'' [] [(''in'', [conn ''/u'' ''out''])]),
               (''/u'', mkNode ''unknown'' [] [])],
      terminals = [(''surface'', conn ''/b'' ''out'')]\<rparr>"

text \<open>The state in which the resolution of a network starts.\<close>

definition built :: "HdMaterialNetwork2 \<Rightarrow> (SampleNode, unit) BuildState" where
  "built net =
     createHoudiniNode sampleBackend (createNodes sampleBackend (nodes net) (initBuildState ()))"

text \<open>A network is ranked when every connection leads to a node of smaller rank.\<close>

definition ranked :: "HdMaterialNetwork2 \<Rightarrow> (SdfPath \<Rightarrow> nat) \<Rightarrow> bool" where
  "ranked net rank \<longleftrightarrow>
     list_all (\<lambda>entry.
        list_all (\<lambda>input. list_all (\<lambda>k. rank (upstreamNode k) < rank (fst entry)) (snd input))
          (inputConnections (snd entry)))
       (nodes net)"

text \<open>The three terminal outputs in the order the code resolves them, and the state after.\<close>

definition resolveTerminals ::
  "('n, 'x) Backend \<Rightarrow> HdMaterialNetwork2 \<Rightarrow> 'x \<Rightarrow> nat
     \<Rightarrow> VtValue option \<times> VtValue option \<times> VtValue option \<times> ('n, 'x) BuildState" where
  "resolveTerminals B net x fuel =
     (case getTerminalOutput B net fuel (volumeToken B)
             (createHoudiniNode B (createNodes B (nodes net) (initBuildState x))) of
        (volumeOutput, s3) \<Rightarrow>
          (case getTerminalOutput B net fuel (surfaceToken B) s3 of
             (surfaceOutput, s4) \<Rightarrow>
               (case getTerminalOutput B net fuel (displacementToken B) s4 of
                  (displacementOutput, s5) \<Rightarrow>
                    (volumeOutput, surfaceOutput, displacementOutput, s5))))"

fun isTag :: "step \<Rightarrow> bool" where
  "isTag (MaterialNodeSetID n w) = True"
| "isTag e = False"

definition untagged :: "('n, 'x) BuildState \<Rightarrow> bool" where
  "untagged s = list_all (\<lambda>e. \<not> isTag e) (trace s)"

text \<open>A surface terminal on a node of a type only the MaterialX path knows.\<close>

definition mtlxNetwork :: HdMaterialNetwork2 where
  "mtlxNetwork =
     \<lparr>nodes = [(''/s'', mkNode ''mtlx'' [] [])],
      terminals = [(''surface'', conn ''/s'' ''out'')]\<rparr>"

text \<open>A built surface node with an identifier parameter.\<close>

definition taggedNetwork :: "32 word \<Rightarrow> HdMaterialNetwork2" where
  "taggedNetwork v =
     \<lparr>nodes = [(''/s'', mkNode ''const'' [(''id'', VtInt v)] [])],
      terminals = [(''surface'', conn ''/s'' ''out'')]\<rparr>"

text \<open>A surface terminal on a node of unknown type without inputs.\<close>

definition unknownSurface :: HdMaterialNetwork2 where
  "unknownSurface =
     \<lparr>nodes = [(''/u'', mkNode ''unknown'' [] [])],
      terminals = [(''surface'', conn ''/u'' ''out'')]\<rparr>"

definition diamondRank :: "SdfPath \<Rightarrow> nat" where
  "diamondRank p = (if p = ''/a'' then 0 else if p = ''/d'' then 2 else 1)"

text \<open>
  Taking a node out of a network: every connection to the node \<open>b\<close> is replaced by the
  connection \<open>c\<close>, and the node's entry is dropped.
\<close>

definition redirect ::
  "SdfPath \<Rightarrow> HdMaterialConnection2 \<Rightarrow> HdMaterialConnection2 \<Rightarrow> HdMaterialConnection2" where
  "redirect b c k = (if upstreamNode k = b then c else k)"

definition mapInput ::
  "(HdMaterialConnection2 \<Rightarrow> HdMaterialConnection2) \<Rightarrow> TfToken \<times> HdMaterialConnection2 list
     \<Rightarrow> TfToken \<times> HdMaterialConnection2 list" where
  "mapInput h input = (fst input, map h (snd input))"

definition mapConnections ::
  "(HdMaterialConnection2 \<Rightarrow> HdMaterialConnection2) \<Rightarrow> HdMaterialNode2 \<Rightarrow> HdMaterialNode2" where
  "mapConnections h node = node\<lparr>inputConnections := map (mapInput h) (inputConnections node)\<rparr>"

definition removeNode ::
  "SdfPath \<Rightarrow> HdMaterialConnection2 \<Rightarrow> HdMaterialNetwork2 \<Rightarrow> HdMaterialNetwork2" where
  "removeNode b c net =
     \<lparr>nodes = map (\<lambda>entry. (fst entry, mapConnections (redirect b c) (snd entry)))
                (filter (\<lambda>entry. fst entry \<noteq> b) (nodes net)),
      terminals = map (\<lambda>t. (fst t, redirect b c (snd t))) (terminals net)\<rparr>"

text \<open>A chain: \<open>/c\<close> reads \<open>/b\<close>, of unknown type, which reads \<open>/a\<close>.\<close>

definition chain :: HdMaterialNetwork2 where
  "chain =
     \<lparr>nodes = [(''/a'', mkNode ''const'' [] []),
               (''/b'', mkNode ''unknown'' [] [(''in'', [conn ''/a'' ''out''])]),
               (''/c'', mkNode ''add'' [] [(''in'', [conn ''/b'' ''out''])])],
      terminals = [(''surface'', conn ''/c'' ''out'')]\<rparr>"

definition chainRank :: "SdfPath \<Rightarrow> nat" where
  "chainRank p = (if p = ''/a'' then 0 else if p = ''/b'' then 1 else 2)"

text \<open>A node \<open>/u\<close> of unknown type whose first input has two connections, both to the
  built node \<open>/a\<close>.\<close>

definition arrayInput :: HdMaterialNetwork2 where
  "arrayInput =
     \<lparr>nodes = [(''/a'', mkNode ''const'' [] []),
               (''/u'', mkNode ''unknown'' [] [(''in'', [conn ''/a'' ''out'', conn ''/a'' ''out''])])],
      terminals = [(''surface'', conn ''/u'' ''out'')]\<rparr>"

text \<open>A built surface node whose identifier parameter holds a string.\<close>

definition stringIdNetwork :: HdMaterialNetwork2 where
  "stringIdNetwork =
     \<lparr>nodes = [(''/s'', mkNode ''const'' [(''id'', VtString ''7'')] [])],
      terminals = [(''surface'', conn ''/s'' ''out'')]\<rparr>"

text \<open>A surface terminal on a MaterialX node that carries an integer identifier.\<close>

definition mtlxTagged :: HdMaterialNetwork2 where
  "mtlxTagged =
     \<lparr>nodes = [(''/s'', mkNode ''mtlx'' [(''id'', VtInt 7)] [])],
      terminals = [(''surface'', conn ''/s'' ''out'')]\<rparr>"

lemma consistent_init: "consistent (initCommitState cache)"
  by (simp add: consistent_def initCommitState_def)

lemma map_of_zip_upt_Some:
  assumes "map_of (zip ps [0 ..< length ps]) p = Some idx"
  shows "idx < length ps \<and> ps ! idx = p"
proof -
  from assms have "(p, idx) \<in> set (zip ps [0 ..< length ps])" by (rule map_of_SomeD)
  then obtain k where "k < length ps" "ps ! k = p" "[0 ..< length ps] ! k = idx"
    by (auto simp: in_set_zip)
  then show ?thesis by simp
qed

lemma map_of_zip_upt_None:
  assumes "map_of (zip ps [0 ..< length ps]) p = None"
  shows "p \<notin> set ps"
proof -
  from assms have "p \<notin> fst ` set (zip ps [0 ..< length ps])"
    by (simp add: map_of_eq_None_iff)
  moreover have "map fst (zip ps [0 ..< length ps]) = ps" by simp
  ultimately show ?thesis by (metis set_map)
qed

lemma getUniqueTextureIndex_hit:
  assumes "consistent s" "p \<in> set (map path (uniqueTextures s))"
  shows "\<exists>idx. getUniqueTextureIndex p t s = (idx, s)
           \<and> idx < length (uniqueTextures s) \<and> path (uniqueTextures s ! idx) = p"
proof (cases "map_of (uniqueTexturesMapping s) p")
  case None
  with assms(1) have "p \<notin> set (map path (uniqueTextures s))"
    using map_of_zip_upt_None [of "map path (uniqueTextures s)" p] by (simp add: consistent_def)
  with assms(2) show ?thesis by simp
next
  case (Some idx)
  with assms(1) have "idx < length (uniqueTextures s) \<and> map path (uniqueTextures s) ! idx = p"
    using map_of_zip_upt_Some [of "map path (uniqueTextures s)" p idx] by (simp add: consistent_def)
  then have "idx < length (uniqueTextures s) \<and> path (uniqueTextures s ! idx) = p" by auto
  with Some show ?thesis by (simp add: getUniqueTextureIndex_def)
qed

lemma getUniqueTextureIndex_miss:
  assumes "consistent s" "p \<notin> set (map path (uniqueTextures s))"
  shows "getUniqueTextureIndex p t s =
           (length (uniqueTextures s),
            s\<lparr>uniqueTexturesMapping :=
                 uniqueTexturesMapping s @ [(p, length (uniqueTexturesMapping s))],
               uniqueTextures :=
                 uniqueTextures s @ [\<lparr>path = p, udimTileId = t, data = None\<rparr>]\<rparr>)"
proof (cases "map_of (uniqueTexturesMapping s) p")
  case None
  moreover from assms(1) have "length (uniqueTexturesMapping s) = length (uniqueTextures s)"
    by (simp add: consistent_def)
  ultimately show ?thesis by (simp add: getUniqueTextureIndex_def)
next
  case (Some idx)
  with assms(1) have "map path (uniqueTextures s) ! idx = p" "idx < length (uniqueTextures s)"
    using map_of_zip_upt_Some [of "map path (uniqueTextures s)" p idx] by (simp_all add: consistent_def)
  then have "p \<in> set (map path (uniqueTextures s))"
    by (metis length_map nth_mem)
  with assms(2) show ?thesis by simp
qed

lemma consistent_append:
  assumes "consistent s" "p \<notin> set (map path (uniqueTextures s))"
  shows "consistent (s\<lparr>uniqueTexturesMapping :=
                 uniqueTexturesMapping s @ [(p, length (uniqueTexturesMapping s))],
               uniqueTextures :=
                 uniqueTextures s @ [\<lparr>path = p, udimTileId = t, data = None\<rparr>]\<rparr>)"
  using assms by (simp add: consistent_def)

text \<open>What one call of the lambda guarantees.\<close>

lemma getUniqueTextureIndex_spec:
  assumes "consistent s" "getUniqueTextureIndex p t s = (idx, s')"
  shows "consistent s' \<and> prefix (uniqueTextures s) (uniqueTextures s')
         \<and> idx < length (uniqueTextures s') \<and> path (uniqueTextures s' ! idx) = p
         \<and> events s' = events s \<and> imageCache s' = imageCache s
         \<and> uniqueTextureIndicesPerCommit s' = uniqueTextureIndicesPerCommit s"
proof (cases "p \<in> set (map path (uniqueTextures s))")
  case True
  from getUniqueTextureIndex_hit [OF assms(1) True, of t] assms(2) assms(1)
  show ?thesis by auto
next
  case False
  from getUniqueTextureIndex_miss [OF assms(1) False, of t] assms(2)
  have s': "s' = s\<lparr>uniqueTexturesMapping :=
                 uniqueTexturesMapping s @ [(p, length (uniqueTexturesMapping s))],
               uniqueTextures :=
                 uniqueTextures s @ [\<lparr>path = p, udimTileId = t, data = None\<rparr>]\<rparr>"
    and idx: "idx = length (uniqueTextures s)" by simp_all
  have "consistent s'" unfolding s' by (rule consistent_append [OF assms(1) False])
  then show ?thesis by (simp add: s' idx)
qed

lemma prefix_nth: "prefix xs ys \<Longrightarrow> i < length xs \<Longrightarrow> ys ! i = xs ! i"
  by (auto simp: prefix_def nth_append)

lemma consistent_emit [simp]: "consistent (emit e s) = consistent s"
  by (simp add: consistent_def emit_def)

lemma emit_fields [simp]:
  "uniqueTextures (emit e s) = uniqueTextures s"
  "imageCache (emit e s) = imageCache s"
  "uniqueTextureIndicesPerCommit (emit e s) = uniqueTextureIndicesPerCommit s"
  "uniqueTexturesMapping (emit e s) = uniqueTexturesMapping s"
  "events (emit e s) = events s @ [e]"
  by (simp_all add: emit_def)

lemma probeTiles_spec:
  assumes "consistent s" "probeTiles E f ts acc s = (idxs, s')"
  shows "consistent s' \<and> prefix (uniqueTextures s) (uniqueTextures s')
         \<and> imageCache s' = imageCache s
         \<and> uniqueTextureIndicesPerCommit s' = uniqueTextureIndicesPerCommit s
         \<and> events s' = events s @ tileEvents E f ts
         \<and> (\<exists>new. idxs = acc @ new \<and> list_all (\<lambda>i. i < length (uniqueTextures s')) new
               \<and> map (\<lambda>i. path (uniqueTextures s' ! i)) new = existingTiles E f ts)"
  using assms
proof (induction ts arbitrary: acc s)
  case Nil
  then show ?case by (simp add: tileEvents_def existingTiles_def)
next
  case (Cons t ts)
  let ?p = "TfStringPrintf E f t"
  let ?s1 = "emit (FileAccess ?p) s"
  have c1: "consistent ?s1" using Cons.prems(1) by simp
  show ?case
  proof (cases "ArchFileAccess E ?p = 0")
    case False
    with Cons.prems(2) have "probeTiles E f ts acc ?s1 = (idxs, s')" by (simp add: Let_def)
    from Cons.IH [OF c1 this] False show ?thesis
      by (simp add: tileEvents_def existingTiles_def)
  next
    case True
    obtain idx s2 where g: "getUniqueTextureIndex ?p t ?s1 = (idx, s2)"
      by (cases "getUniqueTextureIndex ?p t ?s1")
    from getUniqueTextureIndex_spec [OF c1 g]
    have s2: "consistent s2" "prefix (uniqueTextures s) (uniqueTextures s2)"
      "idx < length (uniqueTextures s2)" "path (uniqueTextures s2 ! idx) = ?p"
      "events s2 = events s @ [FileAccess ?p]" "imageCache s2 = imageCache s"
      "uniqueTextureIndicesPerCommit s2 = uniqueTextureIndicesPerCommit s"
      by simp_all
    from Cons.prems(2) True g have "probeTiles E f ts (acc @ [idx]) s2 = (idxs, s')"
      by (simp add: Let_def)
    from Cons.IH [OF s2(1) this] obtain new where
      r: "consistent s'" "prefix (uniqueTextures s2) (uniqueTextures s')"
         "imageCache s' = imageCache s2"
         "uniqueTextureIndicesPerCommit s' = uniqueTextureIndicesPerCommit s2"
         "events s' = events s2 @ tileEvents E f ts"
         "idxs = (acc @ [idx]) @ new" "list_all (\<lambda>i. i < length (uniqueTextures s')) new"
         "map (\<lambda>i. path (uniqueTextures s' ! i)) new = existingTiles E f ts"
      by blast
    from r(2) s2(3) have len: "idx < length (uniqueTextures s')"
      by (auto simp: prefix_def)
    from prefix_nth [OF r(2) s2(3)] s2(4) have pth: "path (uniqueTextures s' ! idx) = ?p"
      by simp
    have "idxs = acc @ (idx # new)" using r(6) by simp
    moreover have "list_all (\<lambda>i. i < length (uniqueTextures s')) (idx # new)"
      using r(7) len by simp
    moreover have "map (\<lambda>i. path (uniqueTextures s' ! i)) (idx # new) = existingTiles E f (t # ts)"
      using r(8) pth True by (simp add: existingTiles_def)
    moreover have "prefix (uniqueTextures s) (uniqueTextures s')"
      using s2(2) r(2) by (rule prefix_order.trans)
    moreover have "events s' = events s @ tileEvents E f (t # ts)"
      using r(5) s2(5) by (simp add: tileEvents_def)
    ultimately show ?thesis using r(1) r(3) r(4) s2(6) s2(7) by metis
  qed
qed

lemma collectCommit_hit:
  assumes "cacheLookup E commit (imageCache s) = (Some img, c')"
  shows "collectCommit E i commit s =
           s\<lparr>imageCache := c',
             uniqueTextureIndicesPerCommit := uniqueTextureIndicesPerCommit s @ [[]],
             events := events s @ [lookupEvent commit, SetTextureCallback i (Some img)]\<rparr>"
  using assms by (simp add: collectCommit_def cacheLookup_def lookupEvent_def emit_def)

lemma collectCommit_udim:
  assumes "consistent s" "cacheLookup E commit (imageCache s) = (None, c')"
    and "RprUsdGetUDIMFormatString E (filepath commit) = Some f"
  shows "\<exists>l. consistent (collectCommit E i commit s)
     \<and> prefix (uniqueTextures s) (uniqueTextures (collectCommit E i commit s))
     \<and> imageCache (collectCommit E i commit s) = c'
     \<and> uniqueTextureIndicesPerCommit (collectCommit E i commit s)
         = uniqueTextureIndicesPerCommit s @ [l]
     \<and> events (collectCommit E i commit s)
         = events s @ lookupEvent commit # tileEvents E f allTiles
     \<and> list_all (\<lambda>k. k < length (uniqueTextures (collectCommit E i commit s))) l
     \<and> map (\<lambda>k. path (uniqueTextures (collectCommit E i commit s) ! k)) l
         = existingTiles E f allTiles"
proof -
  let ?s1 = "emit (lookupEvent commit) (s\<lparr>imageCache := c'\<rparr>)"
  have c1: "consistent ?s1" using assms(1) by (simp add: consistent_def)
  obtain l s2 where p: "probeTiles E f allTiles [] ?s1 = (l, s2)"
    by (cases "probeTiles E f allTiles [] ?s1")
  have eq: "collectCommit E i commit s =
          s2\<lparr>uniqueTextureIndicesPerCommit := uniqueTextureIndicesPerCommit s2 @ [l]\<rparr>"
    using assms(2,3) p
    by (simp add: collectCommit_def cacheLookup_def lookupEvent_def allTiles_def)
  from probeTiles_spec [OF c1 p]
  have "consistent s2" "prefix (uniqueTextures s) (uniqueTextures s2)"
    "imageCache s2 = c'" "uniqueTextureIndicesPerCommit s2 = uniqueTextureIndicesPerCommit s"
    "events s2 = events s @ lookupEvent commit # tileEvents E f allTiles"
    "list_all (\<lambda>k. k < length (uniqueTextures s2)) l"
    "map (\<lambda>k. path (uniqueTextures s2 ! k)) l = existingTiles E f allTiles"
    by simp_all
  then show ?thesis unfolding eq by (simp add: consistent_def)
qed

lemma collectCommit_plain:
  assumes "consistent s" "cacheLookup E commit (imageCache s) = (None, c')"
    and "RprUsdGetUDIMFormatString E (filepath commit) = None"
  shows "\<exists>idx. consistent (collectCommit E i commit s)
     \<and> prefix (uniqueTextures s) (uniqueTextures (collectCommit E i commit s))
     \<and> imageCache (collectCommit E i commit s) = c'
     \<and> uniqueTextureIndicesPerCommit (collectCommit E i commit s)
         = uniqueTextureIndicesPerCommit s @ [[idx]]
     \<and> events (collectCommit E i commit s) = events s @ [lookupEvent commit]
     \<and> idx < length (uniqueTextures (collectCommit E i commit s))
     \<and> path (uniqueTextures (collectCommit E i commit s) ! idx) = filepath commit"
proof -
  let ?s1 = "emit (lookupEvent commit) (s\<lparr>imageCache := c'\<rparr>)"
  have c1: "consistent ?s1" using assms(1) by (simp add: consistent_def)
  obtain idx s2 where g: "getUniqueTextureIndex (filepath commit) 0 ?s1 = (idx, s2)"
    by (cases "getUniqueTextureIndex (filepath commit) 0 ?s1")
  have eq: "collectCommit E i commit s =
          s2\<lparr>uniqueTextureIndicesPerCommit := uniqueTextureIndicesPerCommit s2 @ [[idx]]\<rparr>"
    using assms(2,3) g
    by (simp add: collectCommit_def cacheLookup_def lookupEvent_def)
  from getUniqueTextureIndex_spec [OF c1 g]
  have "consistent s2" "prefix (uniqueTextures s) (uniqueTextures s2)"
    "imageCache s2 = c'" "uniqueTextureIndicesPerCommit s2 = uniqueTextureIndicesPerCommit s"
    "events s2 = events s @ [lookupEvent commit]"
    "idx < length (uniqueTextures s2)" "path (uniqueTextures s2 ! idx) = filepath commit"
    by simp_all
  then show ?thesis unfolding eq by (simp add: consistent_def)
qed

lemma collectCommit_frame:
  assumes "consistent s"
  shows "\<exists>l. consistent (collectCommit E i commit s)
     \<and> prefix (uniqueTextures s) (uniqueTextures (collectCommit E i commit s))
     \<and> imageCache (collectCommit E i commit s) = snd (cacheLookup E commit (imageCache s))
     \<and> uniqueTextureIndicesPerCommit (collectCommit E i commit s)
         = uniqueTextureIndicesPerCommit s @ [l]
     \<and> list_all (\<lambda>k. k < length (uniqueTextures (collectCommit E i commit s))) l
     \<and> map (\<lambda>k. path (uniqueTextures (collectCommit E i commit s) ! k)) l
         = commitPaths E commit (imageCache s)
     \<and> events (collectCommit E i commit s) = events s @ commitEvents E i commit (imageCache s)"
proof (cases "cacheLookup E commit (imageCache s)")
  case (Pair r c')
  show ?thesis
  proof (cases r)
    case (Some img)
    with Pair have h: "cacheLookup E commit (imageCache s) = (Some img, c')" by simp
    show ?thesis
      apply (rule exI [of _ "[]"])
      using assms
      by (simp add: collectCommit_hit [OF h] h consistent_def commitEvents_def commitPaths_def)
  next
    case None
    with Pair have h: "cacheLookup E commit (imageCache s) = (None, c')" by simp
    show ?thesis
    proof (cases "RprUsdGetUDIMFormatString E (filepath commit)")
      case (Some f)
      from collectCommit_udim [OF assms h Some, of i] obtain l where
        l: "consistent (collectCommit E i commit s)"
           "prefix (uniqueTextures s) (uniqueTextures (collectCommit E i commit s))"
           "imageCache (collectCommit E i commit s) = c'"
           "uniqueTextureIndicesPerCommit (collectCommit E i commit s)
              = uniqueTextureIndicesPerCommit s @ [l]"
           "events (collectCommit E i commit s)
              = events s @ lookupEvent commit # tileEvents E f allTiles"
           "list_all (\<lambda>k. k < length (uniqueTextures (collectCommit E i commit s))) l"
           "map (\<lambda>k. path (uniqueTextures (collectCommit E i commit s) ! k)) l
              = existingTiles E f allTiles"
        by blast
      show ?thesis
        apply (rule exI [of _ l])
        using l by (simp add: h Some commitEvents_def commitPaths_def)
    next
      case None
      from collectCommit_plain [OF assms h None, of i] obtain idx where
        l: "consistent (collectCommit E i commit s)"
           "prefix (uniqueTextures s) (uniqueTextures (collectCommit E i commit s))"
           "imageCache (collectCommit E i commit s) = c'"
           "uniqueTextureIndicesPerCommit (collectCommit E i commit s)
              = uniqueTextureIndicesPerCommit s @ [[idx]]"
           "events (collectCommit E i commit s) = events s @ [lookupEvent commit]"
           "idx < length (uniqueTextures (collectCommit E i commit s))"
           "path (uniqueTextures (collectCommit E i commit s) ! idx) = filepath commit"
        by blast
      show ?thesis
        apply (rule exI [of _ "[idx]"])
        using l by (simp add: h None commitEvents_def commitPaths_def)
    qed
  qed
qed

lemma inRange_mono:
  assumes "inRange s" "prefix (uniqueTextures s) (uniqueTextures s')"
    and "uniqueTextureIndicesPerCommit s' = uniqueTextureIndicesPerCommit s @ [l]"
    and "list_all (\<lambda>k. k < length (uniqueTextures s')) l"
  shows "inRange s'"
proof -
  from assms(2) have le: "length (uniqueTextures s) \<le> length (uniqueTextures s')"
    by (auto simp: prefix_def)
  have "list_all (list_all (\<lambda>k. k < length (uniqueTextures s'))) (uniqueTextureIndicesPerCommit s)"
    using assms(1) le unfolding inRange_def list_all_iff by fastforce
  with assms(3,4) show ?thesis by (simp add: inRange_def)
qed

lemma collectLoop_append:
  "collectLoop E a (xs @ ys) s = collectLoop E (a + length xs) ys (collectLoop E a xs s)"
  by (induction xs arbitrary: a s) simp_all

lemma collectLoop_frame:
  assumes "consistent s" "inRange s"
  shows "consistent (collectLoop E a cs s) \<and> inRange (collectLoop E a cs s)
     \<and> prefix (uniqueTextures s) (uniqueTextures (collectLoop E a cs s))
     \<and> prefix (uniqueTextureIndicesPerCommit s)
          (uniqueTextureIndicesPerCommit (collectLoop E a cs s))
     \<and> length (uniqueTextureIndicesPerCommit (collectLoop E a cs s))
         = length (uniqueTextureIndicesPerCommit s) + length cs
     \<and> events (collectLoop E a cs s) = events s @ phase1Events E a cs (imageCache s)"
  using assms
proof (induction cs arbitrary: a s)
  case Nil
  then show ?case by simp
next
  case (Cons c cs)
  let ?s1 = "collectCommit E a c s"
  from collectCommit_frame [OF Cons.prems(1), of E a c] obtain l where
    l: "consistent ?s1" "prefix (uniqueTextures s) (uniqueTextures ?s1)"
       "imageCache ?s1 = snd (cacheLookup E c (imageCache s))"
       "uniqueTextureIndicesPerCommit ?s1 = uniqueTextureIndicesPerCommit s @ [l]"
       "list_all (\<lambda>k. k < length (uniqueTextures ?s1)) l"
       "events ?s1 = events s @ commitEvents E a c (imageCache s)"
    by blast
  have r1: "inRange ?s1" by (rule inRange_mono [OF Cons.prems(2) l(2) l(4) l(5)])
  note ih = Cons.IH [OF l(1) r1, of "Suc a"]
  have "prefix (uniqueTextures s) (uniqueTextures (collectLoop E (Suc a) cs ?s1))"
    using l(2) ih by (meson prefix_order.trans)
  moreover have "prefix (uniqueTextureIndicesPerCommit s)
          (uniqueTextureIndicesPerCommit (collectLoop E (Suc a) cs ?s1))"
    using l(4) ih by (metis prefix_order.trans prefixI)
  ultimately show ?case using ih l(3,4,6) by simp
qed

lemma createImage_fields [simp]:
  "uniqueTextures (createImage E i c s) = uniqueTextures s"
  "uniqueTextureIndicesPerCommit (createImage E i c s) = uniqueTextureIndicesPerCommit s"
  by (simp_all add: createImage_def Let_def split: prod.splits)

lemma createImages_fields [simp]:
  "uniqueTextures (createImages E a cs s) = uniqueTextures s"
  "uniqueTextureIndicesPerCommit (createImages E a cs s) = uniqueTextureIndicesPerCommit s"
  by (induction cs arbitrary: a s) simp_all

lemma createImage_getimage:
  "filter isGetImage (events (createImage E i c s)) =
     filter isGetImage (events s) @ phase3Requests (uniqueTextures s)
        (uniqueTextureIndicesPerCommit s) i [c]"
  by (simp add: createImage_def Let_def split: prod.splits)

lemma createImages_getimage:
  "filter isGetImage (events (createImages E a cs s)) =
     filter isGetImage (events s) @ phase3Requests (uniqueTextures s)
        (uniqueTextureIndicesPerCommit s) a cs"
proof (induction cs arbitrary: a s)
  case Nil
  show ?case by simp
next
  case (Cons c cs)
  show ?case using createImage_getimage [of E a c s] by (simp add: Cons.IH)
qed

lemma createImage_callbacks:
  "length (filter (isCallbackOf j) (events (createImage E i c s))) =
     length (filter (isCallbackOf j) (events s))
       + (if j = i \<and> uniqueTextureIndicesPerCommit s ! i \<noteq> [] then 1 else 0)"
  by (simp add: createImage_def Let_def split: prod.splits)

lemma createImages_callbacks:
  "length (filter (isCallbackOf j) (events (createImages E a cs s))) =
     length (filter (isCallbackOf j) (events s))
       + (if a \<le> j \<and> j < a + length cs \<and> uniqueTextureIndicesPerCommit s ! j \<noteq> []
          then 1 else 0)"
proof (induction cs arbitrary: a s)
  case Nil
  show ?case by simp
next
  case (Cons c cs)
  have step: "length (filter (isCallbackOf j) (events (createImages E a (c # cs) s)))
      = length (filter (isCallbackOf j) (events (createImage E a c s)))
        + (if Suc a \<le> j \<and> j < Suc a + length cs \<and> uniqueTextureIndicesPerCommit s ! j \<noteq> []
           then 1 else 0)"
    by (simp add: Cons.IH)
  show ?case unfolding step createImage_callbacks by (cases "j = a") auto
qed

lemma createImage_loads:
  "filter (isLoadOf p) (events (createImage E i c s)) = filter (isLoadOf p) (events s)"
  by (simp add: createImage_def Let_def split: prod.splits)

lemma createImages_loads:
  "filter (isLoadOf p) (events (createImages E a cs s)) = filter (isLoadOf p) (events s)"
  by (induction cs arbitrary: a s) (simp_all add: createImage_loads)

lemma tileEvents_filters [simp]:
  "filter isGetImage (tileEvents E f ts) = []"
  "filter (isCallbackOf j) (tileEvents E f ts) = []"
  "filter (isLoadOf p) (tileEvents E f ts) = []"
  by (simp_all add: tileEvents_def filter_map comp_def)

lemma commitEvents_getimage: "filter isGetImage (commitEvents E i c cache) = [lookupEvent c]"
  by (simp add: commitEvents_def lookupEvent_def split: option.splits)

lemma commitEvents_loads: "filter (isLoadOf p) (commitEvents E i c cache) = []"
  by (simp add: commitEvents_def lookupEvent_def split: option.splits)

lemma commitEvents_callbacks:
  "filter (isCallbackOf j) (commitEvents E i c cache) =
     (case fst (cacheLookup E c cache) of
        Some img \<Rightarrow> if j = i then [SetTextureCallback i (Some img)] else []
      | None \<Rightarrow> [])"
  by (simp add: commitEvents_def lookupEvent_def split: option.splits)

lemma phase1Events_getimage: "filter isGetImage (phase1Events E a cs c) = map lookupEvent cs"
  by (induction cs arbitrary: a c) (simp_all add: commitEvents_getimage)

lemma phase1Events_loads: "filter (isLoadOf p) (phase1Events E a cs c) = []"
  by (induction cs arbitrary: a c) (simp_all add: commitEvents_loads)

lemma phase1Events_callbacks_out:
  "j < a \<or> a + length cs \<le> j \<Longrightarrow> filter (isCallbackOf j) (phase1Events E a cs c) = []"
  by (induction cs arbitrary: a c) (auto simp: commitEvents_callbacks split: option.splits)

lemma inRange_init: "inRange (initCommitState cache)"
  by (simp add: inRange_def initCommitState_def)

lemma phase1_inv:
  "consistent (phase1 E commits cache) \<and> inRange (phase1 E commits cache)
   \<and> length (uniqueTextureIndicesPerCommit (phase1 E commits cache)) = length commits
   \<and> events (phase1 E commits cache) = phase1Events E 0 commits cache"
  using collectLoop_frame [OF consistent_init inRange_init, of E 0 commits cache]
  by (simp add: phase1_def initCommitState_def)

lemma phase1_take_Suc:
  assumes "i < length commits"
  shows "phase1 E (take (Suc i) commits) cache
           = collectCommit E i (commits ! i) (phase1 E (take i commits) cache)"
  using assms by (simp add: phase1_def take_Suc_conv_app_nth collectLoop_append)

lemma phase1_split:
  assumes "i < length commits"
  shows "phase1 E commits cache
           = collectLoop E (Suc i) (drop (Suc i) commits) (phase1 E (take (Suc i) commits) cache)"
proof -
  have "commits = take (Suc i) commits @ drop (Suc i) commits" by simp
  then have "phase1 E commits cache
      = collectLoop E 0 (take (Suc i) commits @ drop (Suc i) commits) (initCommitState cache)"
    by (simp add: phase1_def)
  also have "\<dots> = collectLoop E (Suc i) (drop (Suc i) commits)
                    (collectLoop E 0 (take (Suc i) commits) (initCommitState cache))"
    using assms by (simp only: collectLoop_append) (simp add: min_def)
  finally show ?thesis by (simp add: phase1_def)
qed

text \<open>The summary of iteration \<open>i\<close> as seen from the end of the first loop.\<close>

lemma phase1_commit:
  assumes "i < length commits"
  shows "list_all (\<lambda>k. k < length (uniqueTextures (phase1 E commits cache)))
           (uniqueTextureIndicesPerCommit (phase1 E commits cache) ! i)
     \<and> map (\<lambda>k. path (uniqueTextures (phase1 E commits cache) ! k))
           (uniqueTextureIndicesPerCommit (phase1 E commits cache) ! i)
         = commitPaths E (commits ! i) (imageCache (phase1 E (take i commits) cache))
     \<and> events (phase1 E (take (Suc i) commits) cache)
         = events (phase1 E (take i commits) cache)
           @ commitEvents E i (commits ! i) (imageCache (phase1 E (take i commits) cache))
     \<and> events (phase1 E commits cache)
         = events (phase1 E (take (Suc i) commits) cache)
           @ phase1Events E (Suc i) (drop (Suc i) commits)
               (imageCache (phase1 E (take (Suc i) commits) cache))"
proof -
  let ?B = "phase1 E (take i commits) cache"
  let ?A = "phase1 E (take (Suc i) commits) cache"
  let ?F = "phase1 E commits cache"
  have B: "consistent ?B" "length (uniqueTextureIndicesPerCommit ?B) = i"
    using phase1_inv [of E "take i commits" cache] assms by simp_all
  have A: "?A = collectCommit E i (commits ! i) ?B" by (rule phase1_take_Suc [OF assms])
  from collectCommit_frame [OF B(1), of E i "commits ! i"] obtain l where
    l: "prefix (uniqueTextures ?B) (uniqueTextures ?A)"
       "uniqueTextureIndicesPerCommit ?A = uniqueTextureIndicesPerCommit ?B @ [l]"
       "list_all (\<lambda>k. k < length (uniqueTextures ?A)) l"
       "map (\<lambda>k. path (uniqueTextures ?A ! k)) l = commitPaths E (commits ! i) (imageCache ?B)"
       "events ?A = events ?B @ commitEvents E i (commits ! i) (imageCache ?B)"
    unfolding A by blast
  have Ainv: "consistent ?A" "inRange ?A" using phase1_inv [of E "take (Suc i) commits" cache]
    by simp_all
  have F: "?F = collectLoop E (Suc i) (drop (Suc i) commits) ?A" by (rule phase1_split [OF assms])
  from collectLoop_frame [OF Ainv, of E "Suc i" "drop (Suc i) commits"]
  have fr: "prefix (uniqueTextures ?A) (uniqueTextures ?F)"
    "prefix (uniqueTextureIndicesPerCommit ?A) (uniqueTextureIndicesPerCommit ?F)"
    "events ?F = events ?A @ phase1Events E (Suc i) (drop (Suc i) commits) (imageCache ?A)"
    unfolding F [symmetric] by simp_all
  have "i < length (uniqueTextureIndicesPerCommit ?A)" using l(2) B(2) by simp
  from prefix_nth [OF fr(2) this]
  have idx: "uniqueTextureIndicesPerCommit ?F ! i = l" using l(2) B(2) by (simp add: nth_append)
  have le: "length (uniqueTextures ?A) \<le> length (uniqueTextures ?F)"
    using fr(1) by (auto simp: prefix_def)
  have r1: "list_all (\<lambda>k. k < length (uniqueTextures ?F)) l"
    using l(3) le unfolding list_all_iff by fastforce
  have "map (\<lambda>k. path (uniqueTextures ?F ! k)) l = map (\<lambda>k. path (uniqueTextures ?A ! k)) l"
    using l(3) prefix_nth [OF fr(1)] unfolding list_all_iff by simp
  with l(4) have r2: "map (\<lambda>k. path (uniqueTextures ?F ! k)) l
                        = commitPaths E (commits ! i) (imageCache ?B)" by simp
  show ?thesis using r1 r2 l(5) fr(3) idx by simp
qed

lemma loadEvents_filters [simp]:
  "filter isGetImage (concat (map (loadEvents E) uts)) = []"
  "filter (isCallbackOf j) (concat (map (loadEvents E) uts)) = []"
  by (induction uts) (simp_all add: loadEvents_def split: option.splits)

lemma loadEvents_loads:
  "length (filter (isLoadOf p) (concat (map (loadEvents E) uts)))
     = length (filter (\<lambda>t. path t = p) uts)"
  by (induction uts) (auto simp: loadEvents_def split: option.splits)

lemma phase2_fields [simp]:
  "uniqueTextureIndicesPerCommit (phase2 E commits cache)
     = uniqueTextureIndicesPerCommit (phase1 E commits cache)"
  "events (phase2 E commits cache)
     = events (phase1 E commits cache)
       @ concat (map (loadEvents E) (uniqueTextures (phase1 E commits cache)))"
  by (simp_all add: phase2_def loadTextures_def)

lemma CommitResources_events:
  "snd (snd (CommitResources E commits cache)) = events (phase3 E commits cache)"
  by (cases commits)
     (simp_all add: CommitResources_def Let_def phase3_def phase2_def phase1_def
        loadTextures_def initCommitState_def)

lemma distinct_count_one:
  assumes "distinct (map f xs)" "k < length xs"
  shows "length (filter (\<lambda>t. f t = f (xs ! k)) xs) = 1"
proof -
  have "filter (\<lambda>t. f t = f (xs ! k)) xs = [xs ! k]"
    using assms
  proof (induction xs arbitrary: k)
    case Nil
    then show ?case by simp
  next
    case (Cons x xs)
    show ?case
    proof (cases k)
      case 0
      have "f x \<notin> f ` set xs" using Cons.prems(1) by simp
      then have "\<forall>t\<in>set xs. f t \<noteq> f x" by (metis imageI)
      then have "filter (\<lambda>t. f t = f x) xs = []"
        by (simp add: filter_empty_conv)
      with 0 show ?thesis by simp
    next
      case (Suc n)
      with Cons.prems have n: "n < length xs" "distinct (map f xs)" by simp_all
      have "f x \<noteq> f (xs ! n)" using Cons.prems(1) n(1) by auto
      with Suc Cons.IH [OF n(2) n(1)] show ?thesis by simp
    qed
  qed
  then show ?thesis by simp
qed

text \<open>Image requests of a whole run.\<close>

lemma run_getimage:
  "filter isGetImage (snd (snd (CommitResources E commits cache)))
     = map lookupEvent commits
       @ phase3Requests (uniqueTextures (phase2 E commits cache))
           (uniqueTextureIndicesPerCommit (phase2 E commits cache)) 0 commits"
  using phase1_inv [of E commits cache]
  by (simp add: CommitResources_events phase3_def createImages_getimage phase1Events_getimage
        del: phase2_fields(1))

text \<open>Callbacks of commit \<open>i\<close> over a whole run.\<close>

lemma run_callbacks:
  assumes "i < length commits"
  shows "length (filter (isCallbackOf i) (snd (snd (CommitResources E commits cache))))
       = (if fst (cacheLookup E (commits ! i) (imageCache (phase1 E (take i commits) cache))) = None
             \<and> (case RprUsdGetUDIMFormatString E (filepath (commits ! i)) of
                   Some f \<Rightarrow> existingTiles E f allTiles = []
                 | None \<Rightarrow> False)
          then 0 else 1)"
proof -
  let ?B = "phase1 E (take i commits) cache"
  let ?A = "phase1 E (take (Suc i) commits) cache"
  let ?F = "phase1 E commits cache"
  let ?c = "commits ! i"
  let ?l = "uniqueTextureIndicesPerCommit ?F ! i"
  from phase1_commit [OF assms, of E cache]
  have pc: "map (\<lambda>k. path (uniqueTextures ?F ! k)) ?l = commitPaths E ?c (imageCache ?B)"
    "events ?A = events ?B @ commitEvents E i ?c (imageCache ?B)"
    "events ?F = events ?A @ phase1Events E (Suc i) (drop (Suc i) commits) (imageCache ?A)"
    by simp_all
  have evB: "events ?B = phase1Events E 0 (take i commits) cache"
    using phase1_inv [of E "take i commits" cache] by simp
  have b0: "filter (isCallbackOf i) (events ?B) = []"
    unfolding evB using assms by (simp add: phase1Events_callbacks_out)
  have l0: "filter (isCallbackOf i)
              (phase1Events E (Suc i) (drop (Suc i) commits) (imageCache ?A)) = []"
    by (simp add: phase1Events_callbacks_out)
  have p1: "length (filter (isCallbackOf i) (events ?F))
              = (case fst (cacheLookup E ?c (imageCache ?B)) of Some img \<Rightarrow> 1 | None \<Rightarrow> 0)"
    unfolding pc(3) pc(2) using b0 l0
    by (simp add: commitEvents_callbacks split: option.splits)
  have lnil: "?l = [] \<longleftrightarrow> commitPaths E ?c (imageCache ?B) = []"
    using pc(1) by (metis map_is_Nil_conv)
  have p3: "length (filter (isCallbackOf i) (events (phase3 E commits cache)))
              = length (filter (isCallbackOf i) (events ?F)) + (if ?l \<noteq> [] then 1 else 0)"
    using assms by (simp add: phase3_def createImages_callbacks)
  show ?thesis
    unfolding CommitResources_events p3 p1 lnil
    by (simp add: commitPaths_def split: option.splits)
qed

lemma run_queue: "fst (CommitResources E commits cache) = []"
  by (simp add: CommitResources_def Let_def)

declare decimal.simps [simp del]

lemmas sample_defs =
  sampleCollaborators_def emptyStorage_def plainCommit_def udimCommit_def
  cacheLookup_def lookupEvent_def phase1_def initCommitState_def collectCommit_def
  getUniqueTextureIndex_def emit_def

lemma allTiles_eq: "allTiles = [1001 ..< 1101]"
  by (simp add: allTiles_def kStartTile_def kEndTile_def)

lemma phase1_grows:
  "prefix (uniqueTextures (phase1 E (take n commits) cache)) (uniqueTextures (phase1 E commits cache))"
proof -
  have "phase1 E commits cache
      = collectLoop E 0 (take n commits @ drop n commits) (initCommitState cache)"
    by (simp add: phase1_def)
  also have "\<dots> = collectLoop E (0 + length (take n commits)) (drop n commits)
                    (phase1 E (take n commits) cache)"
    unfolding phase1_def by (rule collectLoop_append)
  finally have eq: "phase1 E commits cache
      = collectLoop E (0 + length (take n commits)) (drop n commits)
          (phase1 E (take n commits) cache)" .
  have "consistent (phase1 E (take n commits) cache)" "inRange (phase1 E (take n commits) cache)"
    using phase1_inv [of E "take n commits" cache] by simp_all
  from collectLoop_frame [OF this] show ?thesis unfolding eq by blast
qed

lemma collectCommit_fresh:
  assumes "consistent s" "cacheLookup E commit (imageCache s) = (None, c')"
    and "RprUsdGetUDIMFormatString E (filepath commit) = None"
    and "filepath commit \<notin> set (map path (uniqueTextures s))"
  shows "uniqueTextureIndicesPerCommit (collectCommit E i commit s)
           = uniqueTextureIndicesPerCommit s @ [[length (uniqueTextures s)]]"
proof -
  let ?s1 = "emit (lookupEvent commit) (s\<lparr>imageCache := c'\<rparr>)"
  have c1: "consistent ?s1" using assms(1) by (simp add: consistent_def)
  have f1: "filepath commit \<notin> set (map path (uniqueTextures ?s1))" using assms(4) by simp
  from getUniqueTextureIndex_miss [OF c1 f1, of 0] assms(2,3) show ?thesis
    by (simp add: collectCommit_def cacheLookup_def lookupEvent_def)
qed

lemma getUniqueTextureIndex_idem:
  "getUniqueTextureIndex p t' (snd (getUniqueTextureIndex p t s)) = getUniqueTextureIndex p t s"
  by (cases "map_of (uniqueTexturesMapping s) p")
     (simp_all add: getUniqueTextureIndex_def map_add_def)

lemma run_loads:
  "length (filter (isLoadOf p) (snd (snd (CommitResources E commits cache))))
     = length (filter (\<lambda>t. path t = p) (uniqueTextures (phase1 E commits cache)))"
  using phase1_inv [of E commits cache]
  by (simp add: CommitResources_events phase3_def createImages_loads phase1Events_loads
        loadEvents_loads)

lemma singleton_index:
  assumes "map f l = [p]"
  shows "\<exists>k. l = [k] \<and> f k = p"
  using assms by (cases l) auto

text \<open>A cache-missing commit with a literal path, seen from the end of the first loop.\<close>

lemma plain_commit_index:
  assumes "i < length commits"
    and "RprUsdGetUDIMFormatString E (filepath (commits ! i)) = None"
    and "fst (cacheLookup E (commits ! i) (imageCache (phase1 E (take i commits) cache))) = None"
  shows "\<exists>k. uniqueTextureIndicesPerCommit (phase1 E commits cache) ! i = [k]
           \<and> k < length (uniqueTextures (phase1 E commits cache))
           \<and> path (uniqueTextures (phase1 E commits cache) ! k) = filepath (commits ! i)"
proof -
  let ?F = "phase1 E commits cache"
  from phase1_commit [OF assms(1), of E cache] assms(2,3)
  have r: "list_all (\<lambda>k. k < length (uniqueTextures ?F)) (uniqueTextureIndicesPerCommit ?F ! i)"
    "map (\<lambda>k. path (uniqueTextures ?F ! k)) (uniqueTextureIndicesPerCommit ?F ! i)
       = [filepath (commits ! i)]"
    by (simp_all add: commitPaths_def)
  from singleton_index [OF r(2)] obtain k where
    k: "uniqueTextureIndicesPerCommit ?F ! i = [k]"
       "path (uniqueTextures ?F ! k) = filepath (commits ! i)" by blast
  with r(1) show ?thesis by simp
qed

lemma plain_commit_fresh_index:
  assumes "i < length commits"
    and "RprUsdGetUDIMFormatString E (filepath (commits ! i)) = None"
    and "fst (cacheLookup E (commits ! i) (imageCache (phase1 E (take i commits) cache))) = None"
    and "filepath (commits ! i) \<notin> set (map path (uniqueTextures (phase1 E (take i commits) cache)))"
  shows "uniqueTextureIndicesPerCommit (phase1 E commits cache) ! i
           = [length (uniqueTextures (phase1 E (take i commits) cache))]"
proof -
  let ?B = "phase1 E (take i commits) cache"
  let ?A = "phase1 E (take (Suc i) commits) cache"
  let ?F = "phase1 E commits cache"
  have B: "consistent ?B" "length (uniqueTextureIndicesPerCommit ?B) = i"
    using phase1_inv [of E "take i commits" cache] assms(1) by simp_all
  obtain c' where h: "cacheLookup E (commits ! i) (imageCache ?B) = (None, c')"
    using assms(3) by (cases "cacheLookup E (commits ! i) (imageCache ?B)") simp
  have A: "uniqueTextureIndicesPerCommit ?A
             = uniqueTextureIndicesPerCommit ?B @ [[length (uniqueTextures ?B)]]"
    unfolding phase1_take_Suc [OF assms(1)]
    by (rule collectCommit_fresh [OF B(1) h assms(2) assms(4)])
  have Ainv: "consistent ?A" "inRange ?A" using phase1_inv [of E "take (Suc i) commits" cache]
    by simp_all
  from collectLoop_frame [OF Ainv, of E "Suc i" "drop (Suc i) commits"]
  have "prefix (uniqueTextureIndicesPerCommit ?A) (uniqueTextureIndicesPerCommit ?F)"
    unfolding phase1_split [OF assms(1), symmetric] by simp
  moreover have "i < length (uniqueTextureIndicesPerCommit ?A)" using A B(2) by simp
  ultimately have "uniqueTextureIndicesPerCommit ?F ! i = uniqueTextureIndicesPerCommit ?A ! i"
    by (rule prefix_nth)
  with A B(2) show ?thesis by (simp add: nth_append)
qed

lemma distinct_paths_index:
  assumes "distinct (map path uts)" "k < length uts" "k' < length uts"
    and "path (uts ! k) = path (uts ! k')"
  shows "k = k'"
proof -
  from assms have "map path uts ! k = map path uts ! k'" by simp
  moreover have "k < length (map path uts)" "k' < length (map path uts)"
    using assms(2,3) by simp_all
  ultimately show ?thesis using assms(1) nth_eq_iff_index_eq by blast
qed

lemma unloaded_emit [simp]: "unloaded (emit e s) = unloaded s"
  by (simp add: unloaded_def)

lemma getUniqueTextureIndex_unloaded:
  "unloaded s \<Longrightarrow> unloaded (snd (getUniqueTextureIndex p t s))"
  by (simp add: getUniqueTextureIndex_def unloaded_def split: option.splits)

lemma probeTiles_unloaded:
  "unloaded s \<Longrightarrow> unloaded (snd (probeTiles E f ts acc s))"
proof (induction ts arbitrary: acc s)
  case Nil
  then show ?case by simp
next
  case (Cons t ts)
  let ?p = "TfStringPrintf E f t"
  let ?s1 = "emit (FileAccess ?p) s"
  have u1: "unloaded ?s1" using Cons.prems by simp
  show ?case
  proof (cases "ArchFileAccess E ?p = 0")
    case False
    with Cons.IH [OF u1] show ?thesis by (simp add: Let_def)
  next
    case True
    obtain idx s2 where g: "getUniqueTextureIndex ?p t ?s1 = (idx, s2)"
      by (cases "getUniqueTextureIndex ?p t ?s1")
    from getUniqueTextureIndex_unloaded [OF u1, of ?p t] g have "unloaded s2" by simp
    from Cons.IH [OF this] True g show ?thesis by (simp add: Let_def)
  qed
qed

lemma collectCommit_unloaded:
  assumes "unloaded s"
  shows "unloaded (collectCommit E i commit s)"
proof -
  obtain r c' where h: "GetImage E (imageCache s) (filepath commit) (colorspace commit)
             (wrapType commit) [] 0 = (r, c')"
    by (cases "GetImage E (imageCache s) (filepath commit) (colorspace commit)
             (wrapType commit) [] 0")
  let ?s1 = "emit (GetImageCall (filepath commit) (colorspace commit) (wrapType commit) [] 0)
               (s\<lparr>imageCache := c'\<rparr>)"
  have u1: "unloaded ?s1" using assms by (simp add: unloaded_def)
  show ?thesis
  proof (cases r)
    case (Some img)
    with h u1 show ?thesis by (simp add: collectCommit_def unloaded_def)
  next
    case None
    show ?thesis
    proof (cases "RprUsdGetUDIMFormatString E (filepath commit)")
      case (Some f)
      obtain l s2 where p: "probeTiles E f [kStartTile ..< Suc kEndTile] [] ?s1 = (l, s2)"
        by (cases "probeTiles E f [kStartTile ..< Suc kEndTile] [] ?s1")
      from probeTiles_unloaded [OF u1, of E f "[kStartTile ..< Suc kEndTile]" "[]"] p
      have "unloaded s2" by simp
      with h None Some p show ?thesis by (simp add: collectCommit_def unloaded_def)
    next
      case n2: None
      obtain idx s2 where g: "getUniqueTextureIndex (filepath commit) 0 ?s1 = (idx, s2)"
        by (cases "getUniqueTextureIndex (filepath commit) 0 ?s1")
      from getUniqueTextureIndex_unloaded [OF u1, of "filepath commit" 0] g
      have "unloaded s2" by simp
      with h None n2 g show ?thesis by (simp add: collectCommit_def unloaded_def)
    qed
  qed
qed

lemma collectLoop_unloaded:
  "unloaded s \<Longrightarrow> unloaded (collectLoop E a cs s)"
  by (induction cs arbitrary: a s) (simp_all add: collectCommit_unloaded)

lemma phase1_unloaded: "unloaded (phase1 E commits cache)"
  unfolding phase1_def
  by (rule collectLoop_unloaded) (simp add: unloaded_def initCommitState_def)

text \<open>The paths of the table after one call of the lambda, one tile loop, one iteration.\<close>

lemma getUniqueTextureIndex_paths:
  assumes "consistent s" "getUniqueTextureIndex p t s = (idx, s')"
  shows "set (map path (uniqueTextures s')) = insert p (set (map path (uniqueTextures s)))"
proof (cases "p \<in> set (map path (uniqueTextures s))")
  case True
  from getUniqueTextureIndex_hit [OF assms(1) True, of t] assms(2) True show ?thesis by auto
next
  case False
  from getUniqueTextureIndex_miss [OF assms(1) False, of t] assms(2) show ?thesis by auto
qed

lemma probeTiles_paths:
  assumes "consistent s" "probeTiles E f ts acc s = (idxs, s')"
  shows "set (map path (uniqueTextures s'))
           = set (map path (uniqueTextures s)) \<union> set (existingTiles E f ts)"
  using assms
proof (induction ts arbitrary: acc s)
  case Nil
  then show ?case by (simp add: existingTiles_def)
next
  case (Cons t ts)
  let ?p = "TfStringPrintf E f t"
  let ?s1 = "emit (FileAccess ?p) s"
  have c1: "consistent ?s1" using Cons.prems(1) by simp
  show ?case
  proof (cases "ArchFileAccess E ?p = 0")
    case False
    with Cons.prems(2) have "probeTiles E f ts acc ?s1 = (idxs, s')" by (simp add: Let_def)
    from Cons.IH [OF c1 this] False show ?thesis by (simp add: existingTiles_def)
  next
    case True
    obtain idx s2 where g: "getUniqueTextureIndex ?p t ?s1 = (idx, s2)"
      by (cases "getUniqueTextureIndex ?p t ?s1")
    from getUniqueTextureIndex_spec [OF c1 g] have c2: "consistent s2" by simp
    from getUniqueTextureIndex_paths [OF c1 g]
    have p2: "set (map path (uniqueTextures s2)) = insert ?p (set (map path (uniqueTextures s)))"
      by simp
    from Cons.prems(2) True g have "probeTiles E f ts (acc @ [idx]) s2 = (idxs, s')"
      by (simp add: Let_def)
    from Cons.IH [OF c2 this] p2 True show ?thesis by (auto simp: existingTiles_def)
  qed
qed

lemma collectCommit_paths:
  assumes "consistent s"
  shows "set (map path (uniqueTextures (collectCommit E i commit s)))
           = set (map path (uniqueTextures s)) \<union> set (commitPaths E commit (imageCache s))"
proof (cases "cacheLookup E commit (imageCache s)")
  case (Pair r c')
  let ?s1 = "emit (lookupEvent commit) (s\<lparr>imageCache := c'\<rparr>)"
  have c1: "consistent ?s1" using assms by (simp add: consistent_def)
  show ?thesis
  proof (cases r)
    case (Some img)
    with Pair have h: "cacheLookup E commit (imageCache s) = (Some img, c')" by simp
    show ?thesis by (simp add: collectCommit_hit [OF h] h commitPaths_def)
  next
    case None
    with Pair have h: "cacheLookup E commit (imageCache s) = (None, c')" by simp
    show ?thesis
    proof (cases "RprUsdGetUDIMFormatString E (filepath commit)")
      case (Some f)
      obtain l s2 where p: "probeTiles E f allTiles [] ?s1 = (l, s2)"
        by (cases "probeTiles E f allTiles [] ?s1")
      have eq: "collectCommit E i commit s =
          s2\<lparr>uniqueTextureIndicesPerCommit := uniqueTextureIndicesPerCommit s2 @ [l]\<rparr>"
        using h Some p
        by (simp add: collectCommit_def cacheLookup_def lookupEvent_def allTiles_def)
      from probeTiles_paths [OF c1 p] show ?thesis
        unfolding eq by (simp add: h Some commitPaths_def)
    next
      case n2: None
      obtain idx s2 where g: "getUniqueTextureIndex (filepath commit) 0 ?s1 = (idx, s2)"
        by (cases "getUniqueTextureIndex (filepath commit) 0 ?s1")
      have eq: "collectCommit E i commit s =
          s2\<lparr>uniqueTextureIndicesPerCommit := uniqueTextureIndicesPerCommit s2 @ [[idx]]\<rparr>"
        using h n2 g
        by (simp add: collectCommit_def cacheLookup_def lookupEvent_def)
      from getUniqueTextureIndex_paths [OF c1 g] show ?thesis
        unfolding eq by (simp add: h n2 commitPaths_def)
    qed
  qed
qed

text \<open>Every path of the table was asked for by a commit, and every path asked for is there.\<close>

lemma phase1_paths_take:
  "n \<le> length commits \<Longrightarrow>
   set (map path (uniqueTextures (phase1 E (take n commits) cache)))
     = (\<Union>i\<in>{..<n}. set (commitPaths E (commits ! i)
                           (imageCache (phase1 E (take i commits) cache))))"
proof (induction n)
  case 0
  show ?case by (simp add: phase1_def initCommitState_def)
next
  case (Suc n)
  then have n: "n < length commits" by simp
  have B: "consistent (phase1 E (take n commits) cache)"
    using phase1_inv [of E "take n commits" cache] by simp
  have "{..<Suc n} = insert n {..<n}" by auto
  then show ?case
    unfolding phase1_take_Suc [OF n] collectCommit_paths [OF B]
    using Suc.IH n by auto
qed

lemma phase1_paths:
  "set (map path (uniqueTextures (phase1 E commits cache)))
     = (\<Union>i\<in>{..<length commits}. set (commitPaths E (commits ! i)
                           (imageCache (phase1 E (take i commits) cache))))"
  using phase1_paths_take [of "length commits" commits E cache] by simp

text \<open>
  Tile ids of the textures a tile loop registers, when no tile path is in the table yet
  and no two tiles share a path.
\<close>

lemma probeTiles_ids:
  assumes "consistent s" "probeTiles E f ts acc s = (idxs, s')"
    and "distinct (map (TfStringPrintf E f) ts)"
    and "\<forall>t\<in>set ts. TfStringPrintf E f t \<notin> set (map path (uniqueTextures s))"
  shows "map (\<lambda>k. udimTileId (uniqueTextures s' ! k)) (drop (length acc) idxs)
           = filter (\<lambda>t. ArchFileAccess E (TfStringPrintf E f t) = 0) ts"
  using assms
proof (induction ts arbitrary: acc s)
  case Nil
  then show ?case by simp
next
  case (Cons t ts)
  let ?p = "TfStringPrintf E f t"
  let ?s1 = "emit (FileAccess ?p) s"
  have c1: "consistent ?s1" using Cons.prems(1) by simp
  have d: "distinct (map (TfStringPrintf E f) ts)" using Cons.prems(3) by simp
  show ?case
  proof (cases "ArchFileAccess E ?p = 0")
    case False
    with Cons.prems(2) have p: "probeTiles E f ts acc ?s1 = (idxs, s')" by (simp add: Let_def)
    have fr: "\<forall>t\<in>set ts. TfStringPrintf E f t \<notin> set (map path (uniqueTextures ?s1))"
      using Cons.prems(4) by simp
    from Cons.IH [OF c1 p d fr] False show ?thesis by simp
  next
    case True
    have fresh: "?p \<notin> set (map path (uniqueTextures ?s1))" using Cons.prems(4) by simp
    let ?s2 = "?s1\<lparr>uniqueTexturesMapping :=
                 uniqueTexturesMapping ?s1 @ [(?p, length (uniqueTexturesMapping ?s1))],
               uniqueTextures :=
                 uniqueTextures ?s1 @ [\<lparr>path = ?p, udimTileId = t, data = None\<rparr>]\<rparr>"
    let ?idx = "length (uniqueTextures ?s1)"
    have g: "getUniqueTextureIndex ?p t ?s1 = (?idx, ?s2)"
      by (rule getUniqueTextureIndex_miss [OF c1 fresh])
    have c2: "consistent ?s2" by (rule consistent_append [OF c1 fresh])
    from Cons.prems(2) True g have p: "probeTiles E f ts (acc @ [?idx]) ?s2 = (idxs, s')"
      by (simp add: Let_def)
    have fr: "\<forall>t'\<in>set ts. TfStringPrintf E f t' \<notin> set (map path (uniqueTextures ?s2))"
    proof
      fix t' assume t': "t' \<in> set ts"
      with Cons.prems(4) have a: "TfStringPrintf E f t' \<notin> set (map path (uniqueTextures s))"
        by simp
      from Cons.prems(3) have "?p \<notin> TfStringPrintf E f ` set ts" by simp
      with t' have b: "TfStringPrintf E f t' \<noteq> ?p" by (metis imageI)
      from a b show "TfStringPrintf E f t' \<notin> set (map path (uniqueTextures ?s2))" by simp
    qed
    from Cons.IH [OF c2 p d fr]
    have ih: "map (\<lambda>k. udimTileId (uniqueTextures s' ! k)) (drop (Suc (length acc)) idxs)
                = filter (\<lambda>t. ArchFileAccess E (TfStringPrintf E f t) = 0) ts" by simp
    from probeTiles_spec [OF c2 p] obtain new where
      pre: "prefix (uniqueTextures ?s2) (uniqueTextures s')" and new: "idxs = (acc @ [?idx]) @ new"
      by blast
    have "?idx < length (uniqueTextures ?s2)" by simp
    from prefix_nth [OF pre this]
    have tid: "udimTileId (uniqueTextures s' ! ?idx) = t" by (simp add: nth_append)
    have dr: "drop (length acc) idxs = ?idx # drop (Suc (length acc)) idxs"
      using new by simp
    show ?thesis unfolding dr using ih tid True by simp
  qed
qed

lemma collectCommit_udim_ids:
  assumes "consistent s" "cacheLookup E commit (imageCache s) = (None, c')"
    and "RprUsdGetUDIMFormatString E (filepath commit) = Some f"
    and "distinct (map (TfStringPrintf E f) allTiles)"
    and "\<forall>t\<in>set allTiles. TfStringPrintf E f t \<notin> set (map path (uniqueTextures s))"
  shows "map (\<lambda>k. udimTileId (uniqueTextures (collectCommit E i commit s) ! k))
           (last (uniqueTextureIndicesPerCommit (collectCommit E i commit s)))
         = filter (\<lambda>t. ArchFileAccess E (TfStringPrintf E f t) = 0) allTiles"
proof -
  let ?s1 = "emit (lookupEvent commit) (s\<lparr>imageCache := c'\<rparr>)"
  have c1: "consistent ?s1" using assms(1) by (simp add: consistent_def)
  obtain l s2 where p: "probeTiles E f allTiles [] ?s1 = (l, s2)"
    by (cases "probeTiles E f allTiles [] ?s1")
  have eq: "collectCommit E i commit s =
          s2\<lparr>uniqueTextureIndicesPerCommit := uniqueTextureIndicesPerCommit s2 @ [l]\<rparr>"
    using assms(2,3) p
    by (simp add: collectCommit_def cacheLookup_def lookupEvent_def allTiles_def)
  have fr: "\<forall>t\<in>set allTiles. TfStringPrintf E f t \<notin> set (map path (uniqueTextures ?s1))"
    using assms(5) by simp
  from probeTiles_ids [OF c1 p assms(4) fr] show ?thesis unfolding eq by simp
qed

lemma collectCommit_plain_id:
  assumes "consistent s" "cacheLookup E commit (imageCache s) = (None, c')"
    and "RprUsdGetUDIMFormatString E (filepath commit) = None"
    and "filepath commit \<notin> set (map path (uniqueTextures s))"
  shows "uniqueTextures (collectCommit E i commit s)
           = uniqueTextures s @ [\<lparr>path = filepath commit, udimTileId = 0, data = None\<rparr>]"
proof -
  let ?s1 = "emit (lookupEvent commit) (s\<lparr>imageCache := c'\<rparr>)"
  have c1: "consistent ?s1" using assms(1) by (simp add: consistent_def)
  have f1: "filepath commit \<notin> set (map path (uniqueTextures ?s1))" using assms(4) by simp
  from getUniqueTextureIndex_miss [OF c1 f1, of 0] assms(2,3) show ?thesis
    by (simp add: collectCommit_def cacheLookup_def lookupEvent_def)
qed

text \<open>What iteration \<open>i\<close> appended stays where it is until the end of the first loop.\<close>

lemma phase1_after:
  assumes "i < length commits"
  shows "prefix (uniqueTextures (phase1 E (take (Suc i) commits) cache))
           (uniqueTextures (phase1 E commits cache))
       \<and> uniqueTextureIndicesPerCommit (phase1 E commits cache) ! i
           = last (uniqueTextureIndicesPerCommit (phase1 E (take (Suc i) commits) cache))
       \<and> list_all (\<lambda>k. k < length (uniqueTextures (phase1 E (take (Suc i) commits) cache)))
           (uniqueTextureIndicesPerCommit (phase1 E commits cache) ! i)"
proof -
  let ?B = "phase1 E (take i commits) cache"
  let ?A = "phase1 E (take (Suc i) commits) cache"
  let ?F = "phase1 E commits cache"
  have B: "consistent ?B" "length (uniqueTextureIndicesPerCommit ?B) = i"
    using phase1_inv [of E "take i commits" cache] assms by simp_all
  have A: "?A = collectCommit E i (commits ! i) ?B" by (rule phase1_take_Suc [OF assms])
  from collectCommit_frame [OF B(1), of E i "commits ! i"] obtain l where
    l: "uniqueTextureIndicesPerCommit ?A = uniqueTextureIndicesPerCommit ?B @ [l]"
       "list_all (\<lambda>k. k < length (uniqueTextures ?A)) l"
    unfolding A by blast
  have Ainv: "consistent ?A" "inRange ?A" using phase1_inv [of E "take (Suc i) commits" cache]
    by simp_all
  from collectLoop_frame [OF Ainv, of E "Suc i" "drop (Suc i) commits"]
  have fr: "prefix (uniqueTextures ?A) (uniqueTextures ?F)"
    "prefix (uniqueTextureIndicesPerCommit ?A) (uniqueTextureIndicesPerCommit ?F)"
    unfolding phase1_split [OF assms, symmetric] by simp_all
  have "i < length (uniqueTextureIndicesPerCommit ?A)" using l(1) B(2) by simp
  from prefix_nth [OF fr(2) this]
  have idx: "uniqueTextureIndicesPerCommit ?F ! i = l" using l(1) B(2) by (simp add: nth_append)
  show ?thesis using fr(1) idx l by simp
qed

lemma map_nth_prefix:
  assumes "prefix xs ys" "list_all (\<lambda>k. k < length xs) l"
  shows "map (\<lambda>k. g (ys ! k)) l = map (\<lambda>k. g (xs ! k)) l"
  using assms(2) prefix_nth [OF assms(1)] unfolding list_all_iff by simp

text \<open>The tile ids behind the index list of a cache-missing UDIM commit.\<close>

lemma phase1_udim_ids:
  assumes "i < length commits"
    and "fst (cacheLookup E (commits ! i) (imageCache (phase1 E (take i commits) cache))) = None"
    and "RprUsdGetUDIMFormatString E (filepath (commits ! i)) = Some f"
    and "distinct (map (TfStringPrintf E f) allTiles)"
    and "\<forall>t\<in>set allTiles. TfStringPrintf E f t
            \<notin> set (map path (uniqueTextures (phase1 E (take i commits) cache)))"
  shows "map (\<lambda>k. udimTileId (uniqueTextures (phase1 E commits cache) ! k))
           (uniqueTextureIndicesPerCommit (phase1 E commits cache) ! i)
         = filter (\<lambda>t. ArchFileAccess E (TfStringPrintf E f t) = 0) allTiles"
proof -
  let ?B = "phase1 E (take i commits) cache"
  let ?A = "phase1 E (take (Suc i) commits) cache"
  let ?F = "phase1 E commits cache"
  have B: "consistent ?B" using phase1_inv [of E "take i commits" cache] by simp
  obtain c' where h: "cacheLookup E (commits ! i) (imageCache ?B) = (None, c')"
    using assms(2) by (cases "cacheLookup E (commits ! i) (imageCache ?B)") simp
  note af = phase1_after [OF assms(1), of E cache]
  have pre: "prefix (uniqueTextures ?A) (uniqueTextures ?F)" using af by blast
  have e: "uniqueTextureIndicesPerCommit ?F ! i = last (uniqueTextureIndicesPerCommit ?A)"
    using af by blast
  have r: "list_all (\<lambda>k. k < length (uniqueTextures ?A)) (uniqueTextureIndicesPerCommit ?F ! i)"
    using af by blast
  from collectCommit_udim_ids [OF B h assms(3,4,5), of i]
  have "map (\<lambda>k. udimTileId (uniqueTextures ?A ! k)) (uniqueTextureIndicesPerCommit ?F ! i)
          = filter (\<lambda>t. ArchFileAccess E (TfStringPrintf E f t) = 0) allTiles"
    unfolding phase1_take_Suc [OF assms(1), symmetric] e .
  moreover have "map (\<lambda>k. udimTileId (uniqueTextures ?F ! k)) (uniqueTextureIndicesPerCommit ?F ! i)
          = map (\<lambda>k. udimTileId (uniqueTextures ?A ! k)) (uniqueTextureIndicesPerCommit ?F ! i)"
    by (rule map_nth_prefix [OF pre r])
  ultimately show ?thesis by simp
qed

text \<open>The texture a cache-missing commit with a literal path registers has tile id 0.\<close>

lemma phase1_plain_id:
  assumes "i < length commits"
    and "fst (cacheLookup E (commits ! i) (imageCache (phase1 E (take i commits) cache))) = None"
    and "RprUsdGetUDIMFormatString E (filepath (commits ! i)) = None"
    and "filepath (commits ! i)
            \<notin> set (map path (uniqueTextures (phase1 E (take i commits) cache)))"
  shows "uniqueTextureIndicesPerCommit (phase1 E commits cache) ! i
           = [length (uniqueTextures (phase1 E (take i commits) cache))]
       \<and> uniqueTextures (phase1 E commits cache)
           ! length (uniqueTextures (phase1 E (take i commits) cache))
           = \<lparr>path = filepath (commits ! i), udimTileId = 0, data = None\<rparr>"
proof -
  let ?B = "phase1 E (take i commits) cache"
  let ?A = "phase1 E (take (Suc i) commits) cache"
  let ?F = "phase1 E commits cache"
  have B: "consistent ?B" using phase1_inv [of E "take i commits" cache] by simp
  obtain c' where h: "cacheLookup E (commits ! i) (imageCache ?B) = (None, c')"
    using assms(2) by (cases "cacheLookup E (commits ! i) (imageCache ?B)") simp
  from collectCommit_plain_id [OF B h assms(3,4), of i]
  have A: "uniqueTextures ?A
             = uniqueTextures ?B @ [\<lparr>path = filepath (commits ! i), udimTileId = 0, data = None\<rparr>]"
    unfolding phase1_take_Suc [OF assms(1), symmetric] .
  note af = phase1_after [OF assms(1), of E cache]
  have "length (uniqueTextures ?B) < length (uniqueTextures ?A)" using A by simp
  from prefix_nth [OF af [THEN conjunct1] this] A
  have "uniqueTextures ?F ! length (uniqueTextures ?B)
          = \<lparr>path = filepath (commits ! i), udimTileId = 0, data = None\<rparr>"
    by (simp add: nth_append)
  with plain_commit_fresh_index [OF assms(1,3,2,4)] show ?thesis by simp
qed

text \<open>An iteration served from the cache.\<close>

lemma phase1_hit:
  assumes "i < length commits"
    and "fst (cacheLookup E (commits ! i) (imageCache (phase1 E (take i commits) cache)))
           = Some img"
  shows "events (phase1 E (take (Suc i) commits) cache)
           = events (phase1 E (take i commits) cache)
             @ [lookupEvent (commits ! i), SetTextureCallback i (Some img)]
       \<and> uniqueTextures (phase1 E (take (Suc i) commits) cache)
           = uniqueTextures (phase1 E (take i commits) cache)
       \<and> uniqueTextureIndicesPerCommit (phase1 E commits cache) ! i = []"
proof -
  let ?B = "phase1 E (take i commits) cache"
  obtain c' where h: "cacheLookup E (commits ! i) (imageCache ?B) = (Some img, c')"
    using assms(2) by (cases "cacheLookup E (commits ! i) (imageCache ?B)") simp
  have B: "length (uniqueTextureIndicesPerCommit ?B) = i"
    using phase1_inv [of E "take i commits" cache] assms(1) by simp
  note af = phase1_after [OF assms(1), of E cache]
  show ?thesis
    using af unfolding phase1_take_Suc [OF assms(1)] collectCommit_hit [OF h] by simp
qed

lemma createNode_setCurrent [simp]: "createNode B e (setCurrent q s) = createNode B e s"
  by (cases e) (simp add: createNode_def setCurrent_def)

lemma setCurrent_twice [simp]: "setCurrent q (setCurrent r s) = setCurrent q s"
  by (simp add: setCurrent_def)

lemma createNodes_setCurrent:
  "createNodes B es (setCurrent q s) = (if es = [] then setCurrent q s else createNodes B es s)"
  by (cases es) simp_all

lemma createNodes_append:
  "createNodes B (xs @ ys) s = createNodes B ys (createNodes B xs s)"
  by (induction xs arbitrary: s) simp_all

lemma createNode_surface:
  "isSurfacePart B (p, node) \<Longrightarrow>
     createNode B (p, node) s = setSurface p (parameters node) (setCurrent (Some p) s)"
  by (simp add: isSurfacePart_def createNode_def setSurface_def setCurrent_def)

lemma createNode_displacement:
  "isDisplacementPart B (p, node) \<Longrightarrow>
     createNode B (p, node) s = setDisplacement (parameters node) (setCurrent (Some p) s)"
  by (simp add: isDisplacementPart_def createNode_def setDisplacement_def setCurrent_def)

lemma createNode_setSurface:
  "noPart B e \<Longrightarrow> createNode B e (setSurface p ps s) = setSurface p ps (createNode B e s)"
  by (cases e)
     (auto simp: noPart_def createNode_def setSurface_def record_step_def Let_def
           split: option.splits prod.splits FactoryResult.splits)

lemma createNode_setDisplacement:
  "noPart B e \<Longrightarrow> createNode B e (setDisplacement ps s) = setDisplacement ps (createNode B e s)"
  by (cases e)
     (auto simp: noPart_def createNode_def setDisplacement_def record_step_def Let_def
           split: option.splits prod.splits FactoryResult.splits)

lemma createNodes_setSurface:
  "list_all (noPart B) es \<Longrightarrow>
     createNodes B es (setSurface p ps s) = setSurface p ps (createNodes B es s)"
  by (induction es arbitrary: s) (simp_all add: createNode_setSurface)

lemma createNodes_setDisplacement:
  "list_all (noPart B) es \<Longrightarrow>
     createNodes B es (setDisplacement ps s) = setDisplacement ps (createNodes B es s)"
  by (induction es arbitrary: s) (simp_all add: createNode_setDisplacement)

lemma set_commute:
  "setSurface p ps (setDisplacement qs s) = setDisplacement qs (setSurface p ps s)"
  "setCurrent q (setSurface p ps s) = setSurface p ps (setCurrent q s)"
  "setCurrent q (setDisplacement qs s) = setDisplacement qs (setCurrent q s)"
  by (simp_all add: setSurface_def setDisplacement_def setCurrent_def)

lemma find_snoc:
  "find P (xs @ [e]) = (case find P xs of Some y \<Rightarrow> Some y | None \<Rightarrow> if P e then Some e else None)"
  by (induction xs) simp_all

lemma lastPart_Cons:
  "lastPart P (e # es) = (case lastPart P es of Some y \<Rightarrow> Some y | None \<Rightarrow> if P e then Some e else None)"
  by (simp add: lastPart_def find_snoc)

lemma createNode_registered:
  assumes "factoryOf B (nodeTypeId node) = Some f"
    and "f ((builderContext s)\<lparr>currentNodePath := Some p\<rparr>) (parameters node) = (r, ctx)"
  shows "createNode B (p, node) s
           = (case r of
                Created n \<Rightarrow> s\<lparr>builderContext := ctx, materialNodes := (materialNodes s)(p \<mapsto> n)\<rparr>
              | ReturnsNull \<Rightarrow> s\<lparr>builderContext := ctx\<rparr>
              | ThrowsNodeError what \<Rightarrow>
                  s\<lparr>builderContext := ctx,
                    trace := trace s @ [Error_FailedToCreate p (nodeTypeId node) what]\<rparr>
              | ThrowsNodeEmpty \<Rightarrow>
                  s\<lparr>builderContext := ctx, trace := trace s @ [Warn_EmptyNode p]\<rparr>)"
  using assms by (cases r) (simp_all add: createNode_def record_step_def)

lemma createNode_unknown:
  assumes "factoryOf B (nodeTypeId node) = None"
    and "IsHoudiniPrincipledShaderHydraNode B p = None"
  shows "createNode B (p, node) s
           = (setCurrent (Some p) s)\<lparr>trace := trace s @ [Warn_UnknownNodeType (nodeTypeId node)]\<rparr>"
  using assms by (simp add: createNode_def record_step_def setCurrent_def)

lemma entry_kinds:
  "(\<exists>f. factoryOf B (nodeTypeId (snd e)) = Some f) \<or> isSurfacePart B e \<or> isDisplacementPart B e
   \<or> (factoryOf B (nodeTypeId (snd e)) = None
        \<and> IsHoudiniPrincipledShaderHydraNode B (fst e) = None)"
  unfolding isSurfacePart_def isDisplacementPart_def
  by (cases "factoryOf B (nodeTypeId (snd e))";
      cases "IsHoudiniPrincipledShaderHydraNode B (fst e)") auto

lemma createNode_failed:
  assumes "factoryOf B (nodeTypeId node) = Some f"
    and "f ((builderContext s)\<lparr>currentNodePath := Some p\<rparr>) (parameters node) = (r, ctx)"
    and "failed r"
  shows "createNode B (p, node) s
           = s\<lparr>builderContext := ctx, trace := trace s @ failureReport p node r\<rparr>"
  using assms(3) unfolding createNode_registered [OF assms(1,2)] by (cases r) simp_all

lemma createNode_dom:
  "dom (materialNodes (createNode B e s)) \<subseteq> insert (fst e) (dom (materialNodes s))"
proof (cases e)
  case (Pair p node)
  from entry_kinds [of B e] show ?thesis
  proof (elim disjE exE conjE)
    fix f assume f: "factoryOf B (nodeTypeId (snd e)) = Some f"
    obtain r ctx where r: "f ((builderContext s)\<lparr>currentNodePath := Some p\<rparr>) (parameters node) = (r, ctx)"
      by (cases "f ((builderContext s)\<lparr>currentNodePath := Some p\<rparr>) (parameters node)")
    from f Pair have f': "factoryOf B (nodeTypeId node) = Some f" by simp
    show ?thesis unfolding Pair createNode_registered [OF f' r] by (cases r) auto
  next
    assume "isSurfacePart B e"
    then show ?thesis unfolding Pair
      by (auto simp: createNode_surface setSurface_def setCurrent_def)
  next
    assume "isDisplacementPart B e"
    then show ?thesis unfolding Pair
      by (auto simp: createNode_displacement setDisplacement_def setCurrent_def)
  next
    assume "factoryOf B (nodeTypeId (snd e)) = None"
      "IsHoudiniPrincipledShaderHydraNode B (fst e) = None"
    then show ?thesis unfolding Pair
      by (auto simp: createNode_unknown setCurrent_def)
  qed
qed

lemma createNodes_dom:
  "dom (materialNodes (createNodes B es s)) \<subseteq> fst ` set es \<union> dom (materialNodes s)"
proof (induction es arbitrary: s)
  case Nil
  show ?case by simp
next
  case (Cons e es)
  from Cons.IH [of "createNode B e s"] createNode_dom [of B e s]
  show ?case by auto
qed

lemma part_exclusive:
  "isSurfacePart B e \<Longrightarrow> \<not> isDisplacementPart B e"
  "isSurfacePart B e \<Longrightarrow> factoryOf B (nodeTypeId (snd e)) = None"
  "isDisplacementPart B e \<Longrightarrow> factoryOf B (nodeTypeId (snd e)) = None"
  by (simp_all add: isSurfacePart_def isDisplacementPart_def)

lemma createNode_accumulators:
  "houdiniPrincipledShaderNodePath (createNode B e s)
     = (if isSurfacePart B e then Some (fst e) else houdiniPrincipledShaderNodePath s)
   \<and> houdiniPrincipledShaderSurfaceParams (createNode B e s)
     = (if isSurfacePart B e then Some (parameters (snd e))
        else houdiniPrincipledShaderSurfaceParams s)
   \<and> houdiniPrincipledShaderDispParams (createNode B e s)
     = (if isDisplacementPart B e then Some (parameters (snd e))
        else houdiniPrincipledShaderDispParams s)"
proof (cases e)
  case (Pair p node)
  from entry_kinds [of B e] show ?thesis
  proof (elim disjE exE conjE)
    fix f assume f: "factoryOf B (nodeTypeId (snd e)) = Some f"
    obtain r ctx where r: "f ((builderContext s)\<lparr>currentNodePath := Some p\<rparr>) (parameters node) = (r, ctx)"
      by (cases "f ((builderContext s)\<lparr>currentNodePath := Some p\<rparr>) (parameters node)")
    from f Pair have f': "factoryOf B (nodeTypeId node) = Some f" by simp
    from f have n: "\<not> isSurfacePart B e" "\<not> isDisplacementPart B e"
      by (simp_all add: isSurfacePart_def isDisplacementPart_def)
    show ?thesis using n unfolding Pair createNode_registered [OF f' r] by (cases r) simp_all
  next
    assume a: "isSurfacePart B e"
    then show ?thesis using part_exclusive(1) [OF a] unfolding Pair
      by (simp add: createNode_surface setSurface_def setCurrent_def)
  next
    assume a: "isDisplacementPart B e"
    then have "\<not> isSurfacePart B e" using part_exclusive(1) by blast
    with a show ?thesis unfolding Pair
      by (simp add: createNode_displacement setDisplacement_def setCurrent_def)
  next
    assume a: "factoryOf B (nodeTypeId (snd e)) = None"
      "IsHoudiniPrincipledShaderHydraNode B (fst e) = None"
    then have "\<not> isSurfacePart B e" "\<not> isDisplacementPart B e"
      by (simp_all add: isSurfacePart_def isDisplacementPart_def)
    with a show ?thesis unfolding Pair
      by (simp add: createNode_unknown setCurrent_def)
  qed
qed

lemma createNodes_accumulators:
  "houdiniPrincipledShaderNodePath (createNodes B es s)
     = (case lastPart (isSurfacePart B) es of
          Some e \<Rightarrow> Some (fst e) | None \<Rightarrow> houdiniPrincipledShaderNodePath s)
   \<and> houdiniPrincipledShaderSurfaceParams (createNodes B es s)
     = (case lastPart (isSurfacePart B) es of
          Some e \<Rightarrow> Some (parameters (snd e)) | None \<Rightarrow> houdiniPrincipledShaderSurfaceParams s)
   \<and> houdiniPrincipledShaderDispParams (createNodes B es s)
     = (case lastPart (isDisplacementPart B) es of
          Some e \<Rightarrow> Some (parameters (snd e)) | None \<Rightarrow> houdiniPrincipledShaderDispParams s)"
proof (induction es arbitrary: s)
  case Nil
  show ?case by (simp add: lastPart_def)
next
  case (Cons e es)
  show ?case
    using Cons.IH [of "createNode B e s"] createNode_accumulators [of B e s]
    by (simp add: lastPart_Cons split: option.splits)
qed

lemma lastPart_Some:
  "lastPart P es = Some e \<Longrightarrow> e \<in> set es \<and> P e"
  unfolding lastPart_def by (metis find_Some_iff nth_mem set_rev)

lemmas graph_sample_defs =
  sampleBackend_def mkNode_def conn_def initBuildState_def createNode_def record_step_def
  isSurfacePart_def isDisplacementPart_def noPart_def

lemma distinct_fst_unique:
  assumes "distinct (map fst es)" "(k, v) \<in> set es" "(k, v') \<in> set es"
  shows "v = v'"
proof -
  have "map_of es k = Some v" using assms(1,2) by (simp add: map_of_eq_Some_iff)
  moreover have "map_of es k = Some v'" using assms(1,3) by (simp add: map_of_eq_Some_iff)
  ultimately show ?thesis by simp
qed

text \<open>The pass over a surface part and a displacement part with nodes that are no part in
  between, in both orders.\<close>

lemma createNodes_surface_first:
  assumes "isSurfacePart B (ps, ns)" "isDisplacementPart B (pd, nd)" "list_all (noPart B) ys"
  shows "createNodes B ((ps, ns) # ys @ [(pd, nd)]) s
           = setCurrent (Some pd)
               (setDisplacement (parameters nd) (setSurface ps (parameters ns)
                  (createNodes B ys s)))"
proof -
  have "createNodes B ((ps, ns) # ys @ [(pd, nd)]) s
      = createNode B (pd, nd)
          (createNodes B ys (setSurface ps (parameters ns) (setCurrent (Some ps) s)))"
    by (simp add: createNodes_append createNode_surface [OF assms(1)])
  also have "\<dots> = setDisplacement (parameters nd) (setCurrent (Some pd)
          (setSurface ps (parameters ns) (createNodes B ys (setCurrent (Some ps) s))))"
    by (simp add: createNodes_setSurface [OF assms(3)] createNode_displacement [OF assms(2)])
  also have "\<dots> = setCurrent (Some pd) (setDisplacement (parameters nd)
          (setSurface ps (parameters ns) (setCurrent (Some pd) (createNodes B ys (setCurrent (Some ps) s)))))"
    by (simp add: set_commute)
  also have "setCurrent (Some pd) (createNodes B ys (setCurrent (Some ps) s))
               = setCurrent (Some pd) (createNodes B ys s)"
    by (simp add: createNodes_setCurrent)
  finally show ?thesis by (simp add: set_commute)
qed

lemma createNodes_displacement_first:
  assumes "isSurfacePart B (ps, ns)" "isDisplacementPart B (pd, nd)" "list_all (noPart B) ys"
  shows "createNodes B ((pd, nd) # ys @ [(ps, ns)]) s
           = setCurrent (Some ps)
               (setDisplacement (parameters nd) (setSurface ps (parameters ns)
                  (createNodes B ys s)))"
proof -
  have "createNodes B ((pd, nd) # ys @ [(ps, ns)]) s
      = createNode B (ps, ns)
          (createNodes B ys (setDisplacement (parameters nd) (setCurrent (Some pd) s)))"
    by (simp add: createNodes_append createNode_displacement [OF assms(2)])
  also have "\<dots> = setSurface ps (parameters ns) (setCurrent (Some ps)
          (setDisplacement (parameters nd) (createNodes B ys (setCurrent (Some pd) s))))"
    by (simp add: createNodes_setDisplacement [OF assms(3)] createNode_surface [OF assms(1)])
  also have "\<dots> = setCurrent (Some ps) (setDisplacement (parameters nd)
          (setSurface ps (parameters ns) (setCurrent (Some ps) (createNodes B ys (setCurrent (Some pd) s)))))"
    by (simp add: set_commute)
  also have "setCurrent (Some ps) (createNodes B ys (setCurrent (Some pd) s))
               = setCurrent (Some ps) (createNodes B ys s)"
    by (simp add: createNodes_setCurrent)
  finally show ?thesis by (simp add: set_commute)
qed

lemma swap_parts:
  assumes "isSurfacePart B (ps, ns)" "isDisplacementPart B (pd, nd)" "list_all (noPart B) ys"
  shows "setCurrent None (createNodes B (xs @ (ps, ns) # ys @ (pd, nd) # zs) s)
           = setCurrent None (createNodes B (xs @ (pd, nd) # ys @ (ps, ns) # zs) s)"
    and "zs \<noteq> [] \<Longrightarrow> createNodes B (xs @ (ps, ns) # ys @ (pd, nd) # zs) s
           = createNodes B (xs @ (pd, nd) # ys @ (ps, ns) # zs) s"
proof -
  let ?W = "setDisplacement (parameters nd) (setSurface ps (parameters ns)
              (createNodes B ys (createNodes B xs s)))"
  have a: "createNodes B (xs @ (ps, ns) # ys @ (pd, nd) # zs) s
             = createNodes B zs (setCurrent (Some pd) ?W)"
    using createNodes_surface_first [OF assms, of "createNodes B xs s"]
    by (simp add: createNodes_append)
  have b: "createNodes B (xs @ (pd, nd) # ys @ (ps, ns) # zs) s
             = createNodes B zs (setCurrent (Some ps) ?W)"
    using createNodes_displacement_first [OF assms, of "createNodes B xs s"]
    by (simp add: createNodes_append)
  show "setCurrent None (createNodes B (xs @ (ps, ns) # ys @ (pd, nd) # zs) s)
           = setCurrent None (createNodes B (xs @ (pd, nd) # ys @ (ps, ns) # zs) s)"
    unfolding a b by (simp add: createNodes_setCurrent)
  show "zs \<noteq> [] \<Longrightarrow> createNodes B (xs @ (ps, ns) # ys @ (pd, nd) # zs) s
           = createNodes B (xs @ (pd, nd) # ys @ (ps, ns) # zs) s"
    unfolding a b by (simp add: createNodes_setCurrent)
qed

text \<open>The block after the loop, in terms of the last surface and displacement parts.\<close>

lemma createHoudiniNode_lastPart:
  "createHoudiniNode B (createNodes B es (initBuildState x))
     = (case lastPart (isSurfacePart B) es of
          None \<Rightarrow> createNodes B es (initBuildState x)
        | Some e \<Rightarrow>
            (createNodes B es (initBuildState x))
              \<lparr>builderContext :=
                 snd (HoudiniPrincipledNode B (builderContext (createNodes B es (initBuildState x)))
                        (parameters (snd e))
                        (map_option (\<lambda>d. parameters (snd d)) (lastPart (isDisplacementPart B) es))),
               materialNodes :=
                 (materialNodes (createNodes B es (initBuildState x)))
                   (fst e \<mapsto>
                      fst (HoudiniPrincipledNode B
                             (builderContext (createNodes B es (initBuildState x)))
                             (parameters (snd e))
                             (map_option (\<lambda>d. parameters (snd d))
                                (lastPart (isDisplacementPart B) es))))\<rparr>)"
proof -
  let ?F = "createNodes B es (initBuildState x)"
  have acc: "houdiniPrincipledShaderNodePath ?F
               = map_option fst (lastPart (isSurfacePart B) es)"
    "houdiniPrincipledShaderSurfaceParams ?F
               = map_option (\<lambda>e. parameters (snd e)) (lastPart (isSurfacePart B) es)"
    "houdiniPrincipledShaderDispParams ?F
               = map_option (\<lambda>d. parameters (snd d)) (lastPart (isDisplacementPart B) es)"
    using createNodes_accumulators [of B es "initBuildState x"]
    by (simp_all add: initBuildState_def split: option.splits)
  show ?thesis
    unfolding createHoudiniNode_def acc
    by (cases "lastPart (isSurfacePart B) es") (simp_all split: prod.splits)
qed

lemma createNode_dom_registered:
  "dom (materialNodes (createNode B e s))
     \<subseteq> (if factoryOf B (nodeTypeId (snd e)) = None then {} else {fst e}) \<union> dom (materialNodes s)"
proof (cases e)
  case (Pair p node)
  from entry_kinds [of B e] show ?thesis
  proof (elim disjE exE conjE)
    fix f assume f: "factoryOf B (nodeTypeId (snd e)) = Some f"
    obtain r ctx where r: "f ((builderContext s)\<lparr>currentNodePath := Some p\<rparr>) (parameters node) = (r, ctx)"
      by (cases "f ((builderContext s)\<lparr>currentNodePath := Some p\<rparr>) (parameters node)")
    from f Pair have f': "factoryOf B (nodeTypeId node) = Some f" by simp
    show ?thesis using f' unfolding Pair createNode_registered [OF f' r] by (cases r) auto
  next
    assume "isSurfacePart B e"
    then show ?thesis unfolding Pair
      by (auto simp: createNode_surface setSurface_def setCurrent_def)
  next
    assume "isDisplacementPart B e"
    then show ?thesis unfolding Pair
      by (auto simp: createNode_displacement setDisplacement_def setCurrent_def)
  next
    assume "factoryOf B (nodeTypeId (snd e)) = None"
      "IsHoudiniPrincipledShaderHydraNode B (fst e) = None"
    then show ?thesis unfolding Pair
      by (auto simp: createNode_unknown setCurrent_def)
  qed
qed

lemma createNodes_dom_registered:
  assumes "p \<in> dom (materialNodes (createNodes B es s))"
  shows "p \<in> dom (materialNodes s)
         \<or> (\<exists>e. e \<in> set es \<and> fst e = p \<and> factoryOf B (nodeTypeId (snd e)) \<noteq> None)"
  using assms
proof (induction es arbitrary: s)
  case Nil
  then show ?case by simp
next
  case (Cons e es)
  from Cons.prems have "p \<in> dom (materialNodes (createNodes B es (createNode B e s)))" by simp
  from Cons.IH [OF this] show ?case
  proof
    assume "p \<in> dom (materialNodes (createNode B e s))"
    with createNode_dom_registered [of B e s]
    have "p \<in> (if factoryOf B (nodeTypeId (snd e)) = None then {} else {fst e})
               \<union> dom (materialNodes s)" by blast
    then have "p \<in> dom (materialNodes s)
               \<or> (fst e = p \<and> factoryOf B (nodeTypeId (snd e)) \<noteq> None)"
      by (cases "factoryOf B (nodeTypeId (snd e)) = None") auto
    then show ?thesis by (metis list.set_intros(1))
  next
    assume "\<exists>e. e \<in> set es \<and> fst e = p \<and> factoryOf B (nodeTypeId (snd e)) \<noteq> None"
    then show ?thesis by auto
  qed
qed

lemma surface_part_unbuilt:
  assumes "distinct (map fst es)" "lastPart (isSurfacePart B) es = Some e"
  shows "materialNodes (createNodes B es (initBuildState x)) (fst e) = None"
proof (rule ccontr)
  assume "materialNodes (createNodes B es (initBuildState x)) (fst e) \<noteq> None"
  then have "fst e \<in> dom (materialNodes (createNodes B es (initBuildState x)))" by auto
  from createNodes_dom_registered [OF this]
  obtain e' where e': "e' \<in> set es" "factoryOf B (nodeTypeId (snd e')) \<noteq> None" "fst e' = fst e"
    by (auto simp: initBuildState_def)
  from lastPart_Some [OF assms(2)] have e: "e \<in> set es" "isSurfacePart B e" by simp_all
  have "snd e' = snd e"
    using distinct_fst_unique [OF assms(1), of "fst e" "snd e'" "snd e"] e(1) e'(1,3)
    by (metis prod.collapse)
  with e'(2) e(2) show False by (simp add: isSurfacePart_def)
qed

text \<open>
  A relation between states that holds across every elementary step of the resolution
  holds across a whole call, however much fuel it gets. First the loop over the inputs,
  given the property for the calls it makes; then one more level of calls.
\<close>

lemma setNodeInputs_rel:
  fixes R :: "('n, 'x) BuildState \<Rightarrow> ('n, 'x) BuildState \<Rightarrow> bool"
  assumes refl: "\<And>s. R s s"
    and trans: "\<And>a b c. R a b \<Longrightarrow> R b c \<Longrightarrow> R a c"
    and arr: "\<And>s. R s (record_step Error_ConnectedArrayElements s)"
    and seti: "\<And>s q i v. R s (callSetInput B q i v s)"
    and G: "\<And>c s. R s (snd (getNodeOutput B net n c s))"
  shows "R s (snd (setNodeInputs B net n p ins s))"
proof (induction ins arbitrary: s)
  case Nil
  show ?case by (simp add: refl)
next
  case (Cons a rest)
  obtain inputId connections where a: "a = (inputId, connections)" by (cases a)
  show ?case
  proof (cases connections)
    case Nil
    with a Cons.IH [of s] show ?thesis by simp
  next
    case c1: (Cons k ks)
    show ?thesis
    proof (cases ks)
      case Nil
      obtain r s' where g: "getNodeOutput B net n k s = (r, s')"
        by (cases "getNodeOutput B net n k s")
      from G [of s k] g have r1: "R s s'" by simp
      show ?thesis
      proof (cases r)
        case None
        with a c1 Nil g r1 show ?thesis by simp
      next
        case (Some v)
        let ?s2 = "if v \<noteq> VtEmpty then callSetInput B p inputId v s' else s'"
        have "R s' ?s2" by (simp add: refl seti)
        with r1 have "R s ?s2" by (rule trans)
        from trans [OF this Cons.IH [of ?s2]] a c1 Nil g Some show ?thesis by simp
      qed
    next
      case (Cons k2 ks2)
      from trans [OF arr [of s] Cons.IH [of "record_step Error_ConnectedArrayElements s"]]
        a c1 Cons show ?thesis by simp
    qed
  qed
qed

lemma getNodeOutput_Suc_rel:
  fixes R :: "('n, 'x) BuildState \<Rightarrow> ('n, 'x) BuildState \<Rightarrow> bool"
  assumes refl: "\<And>s. R s s"
    and trans: "\<And>a b c. R a b \<Longrightarrow> R b c \<Longrightarrow> R a c"
    and inval: "\<And>s q. R s (record_step (Error_InvalidConnection q) s)"
    and arr: "\<And>s. R s (record_step Error_ConnectedArrayElements s)"
    and wire: "\<And>s q. q \<notin> visited s \<Longrightarrow>
                 R s (record_step (WireInputs q) (s\<lparr>visited := insert q (visited s)\<rparr>))"
    and geto: "\<And>s q out. R s (snd (callGetOutput B q out s))"
    and G: "\<And>c s. R s (snd (getNodeOutput B net n c s))"
    and S: "\<And>p ins s. R s (snd (setNodeInputs B net n p ins s))"
  shows "R s (snd (getNodeOutput B net (Suc n) c s))"
proof -
  let ?p = "upstreamNode c"
  show ?thesis
  proof (cases "map_of (nodes net) ?p")
    case None
    then show ?thesis by (simp add: inval)
  next
    case (Some node)
    show ?thesis
    proof (cases "materialNodes s ?p")
      case built: (Some mn)
      show ?thesis
      proof (cases "?p \<in> visited s")
        case True
        then show ?thesis using Some built geto [of s ?p "upstreamOutputName c"] by simp
      next
        case False
        let ?s0 = "record_step (WireInputs ?p) (s\<lparr>visited := insert ?p (visited s)\<rparr>)"
        obtain ok s' where w: "setNodeInputs B net n ?p (inputConnections node) ?s0 = (ok, s')"
          by (cases "setNodeInputs B net n ?p (inputConnections node) ?s0")
        have "R ?s0 s'" using S [of ?s0 ?p "inputConnections node"] w by simp
        with wire [OF False] have r: "R s s'" by (rule trans)
        show ?thesis
        proof (cases ok)
          case True
          with trans [OF r geto [of s' ?p "upstreamOutputName c"]] Some built False w
          show ?thesis by simp
        next
          case no: False
          with r Some built False w show ?thesis by simp
        qed
      qed
    next
      case unbuilt: None
      show ?thesis
      proof (cases "inputConnections node")
        case Nil
        with Some unbuilt show ?thesis by (simp add: refl)
      next
        case (Cons a others)
        obtain inputId connections where a: "a = (inputId, connections)" by (cases a)
        show ?thesis
        proof (cases connections)
          case Nil
          with Some unbuilt Cons a show ?thesis by (simp add: refl)
        next
          case c1: (Cons k ks)
          show ?thesis
          proof (cases ks)
            case Nil
            with Some unbuilt Cons a c1 G [of s k] show ?thesis by simp
          next
            case c2: (Cons k2 ks2)
            with Some unbuilt Cons a c1 show ?thesis by (simp add: arr)
          qed
        qed
      qed
    qed
  qed
qed

lemma resolve_rel:
  fixes R :: "('n, 'x) BuildState \<Rightarrow> ('n, 'x) BuildState \<Rightarrow> bool"
  assumes refl: "\<And>s. R s s"
    and trans: "\<And>a b c. R a b \<Longrightarrow> R b c \<Longrightarrow> R a c"
    and inval: "\<And>s q. R s (record_step (Error_InvalidConnection q) s)"
    and arr: "\<And>s. R s (record_step Error_ConnectedArrayElements s)"
    and wire: "\<And>s q. q \<notin> visited s \<Longrightarrow>
                 R s (record_step (WireInputs q) (s\<lparr>visited := insert q (visited s)\<rparr>))"
    and seti: "\<And>s q i v. R s (callSetInput B q i v s)"
    and geto: "\<And>s q out. R s (snd (callGetOutput B q out s))"
  shows "R s (snd (getNodeOutput B net n c s))"
    and "R s (snd (setNodeInputs B net n p ins s))"
proof -
  have G: "\<And>c s. R s (snd (getNodeOutput B net n c s))"
  proof (induction n)
    case 0
    show ?case by (simp add: refl)
  next
    case (Suc n)
    have S: "\<And>p ins s. R s (snd (setNodeInputs B net n p ins s))"
      by (rule setNodeInputs_rel [where R = R, OF refl trans arr seti Suc.IH])
    show ?case
      by (rule getNodeOutput_Suc_rel [where R = R, OF refl trans inval arr wire geto Suc.IH S])
  qed
  show "R s (snd (getNodeOutput B net n c s))" by (rule G)
  show "R s (snd (setNodeInputs B net n p ins s))"
    by (rule setNodeInputs_rel [where R = R, OF refl trans arr seti G])
qed

lemma wiredPaths_append: "wiredPaths (xs @ ys) = wiredPaths xs @ wiredPaths ys"
  by (induction xs rule: wiredPaths.induct) simp_all

lemma resolveFrame_refl: "resolveFrame s s"
  by (simp add: resolveFrame_def)

lemma resolveFrame_trans: "resolveFrame a b \<Longrightarrow> resolveFrame b c \<Longrightarrow> resolveFrame a c"
  unfolding resolveFrame_def by (elim conjE exE) (auto simp: list_all_append)

lemma resolveFrame_step:
  "isResolveStep e \<Longrightarrow> resolveFrame s (record_step e s)"
  by (simp add: resolveFrame_def record_step_def)

lemma resolveFrame_wire:
  "resolveFrame s (record_step (WireInputs q) (s\<lparr>visited := insert q (visited s)\<rparr>))"
  by (auto simp: resolveFrame_def record_step_def)

lemma resolveFrame_setInput: "resolveFrame s (callSetInput B q i v s)"
  by (cases "materialNodes s q") (auto simp: callSetInput_def resolveFrame_def record_step_def)

lemma resolveFrame_getOutput: "resolveFrame s (snd (callGetOutput B q out s))"
  by (cases "materialNodes s q") (auto simp: callGetOutput_def resolveFrame_def record_step_def)

lemma getNodeOutput_frame: "resolveFrame s (snd (getNodeOutput B net n c s))"
  by (rule resolve_rel(1) [where R = resolveFrame])
     (simp_all add: resolveFrame_refl resolveFrame_step resolveFrame_wire resolveFrame_setInput
        resolveFrame_getOutput, erule (1) resolveFrame_trans)

lemma setNodeInputs_frame: "resolveFrame s (snd (setNodeInputs B net n p ins s))"
  by (rule resolve_rel(2) [where R = resolveFrame])
     (simp_all add: resolveFrame_refl resolveFrame_step resolveFrame_wire resolveFrame_setInput
        resolveFrame_getOutput, erule (1) resolveFrame_trans)

lemma wiredOnce_step:
  "wiredPaths [e] = [] \<Longrightarrow> wiredOnce (record_step e s) = wiredOnce s"
  by (simp add: wiredOnce_def record_step_def wiredPaths_append)

lemma wiredOnce_wire:
  assumes "q \<notin> visited s" "wiredOnce s"
  shows "wiredOnce (record_step (WireInputs q) (s\<lparr>visited := insert q (visited s)\<rparr>))"
proof -
  from assms have "q \<notin> set (wiredPaths (trace s))"
    by (auto simp: wiredOnce_def list_all_iff)
  with assms(2) show ?thesis
    by (auto simp: wiredOnce_def record_step_def wiredPaths_append list_all_iff)
qed

lemma wiredOnce_setInput: "wiredOnce (callSetInput B q i v s) = wiredOnce s"
  by (cases "materialNodes s q")
     (simp_all add: callSetInput_def wiredOnce_def record_step_def wiredPaths_append)

lemma wiredOnce_getOutput: "wiredOnce (snd (callGetOutput B q out s)) = wiredOnce s"
  by (cases "materialNodes s q")
     (simp_all add: callGetOutput_def wiredOnce_def record_step_def wiredPaths_append)

lemma getNodeOutput_wiredOnce:
  "wiredOnce s \<Longrightarrow> wiredOnce (snd (getNodeOutput B net n c s))"
proof -
  have "wiredOnce s \<longrightarrow> wiredOnce (snd (getNodeOutput B net n c s))"
    by (rule resolve_rel(1) [where R = "\<lambda>a b. wiredOnce a \<longrightarrow> wiredOnce b"])
       (simp_all add: wiredOnce_step wiredOnce_wire wiredOnce_setInput wiredOnce_getOutput)
  then show "wiredOnce s \<Longrightarrow> wiredOnce (snd (getNodeOutput B net n c s))" by simp
qed

lemma setNodeInputs_wiredOnce:
  "wiredOnce s \<Longrightarrow> wiredOnce (snd (setNodeInputs B net n p ins s))"
proof -
  have "wiredOnce s \<longrightarrow> wiredOnce (snd (setNodeInputs B net n p ins s))"
    by (rule resolve_rel(2) [where R = "\<lambda>a b. wiredOnce a \<longrightarrow> wiredOnce b"])
       (simp_all add: wiredOnce_step wiredOnce_wire wiredOnce_setInput wiredOnce_getOutput)
  then show "wiredOnce s \<Longrightarrow> wiredOnce (snd (setNodeInputs B net n p ins s))" by simp
qed

lemma createNode_wiredOnce: "wiredOnce (createNode B e s) = wiredOnce s"
proof (cases e)
  case (Pair p node)
  from entry_kinds [of B e] show ?thesis
  proof (elim disjE exE conjE)
    fix f assume f: "factoryOf B (nodeTypeId (snd e)) = Some f"
    obtain r ctx where r: "f ((builderContext s)\<lparr>currentNodePath := Some p\<rparr>) (parameters node) = (r, ctx)"
      by (cases "f ((builderContext s)\<lparr>currentNodePath := Some p\<rparr>) (parameters node)")
    from f Pair have f': "factoryOf B (nodeTypeId node) = Some f" by simp
    show ?thesis unfolding Pair createNode_registered [OF f' r]
      by (cases r) (simp_all add: wiredOnce_def wiredPaths_append)
  next
    assume "isSurfacePart B e"
    then show ?thesis unfolding Pair
      by (simp add: createNode_surface setSurface_def setCurrent_def wiredOnce_def)
  next
    assume "isDisplacementPart B e"
    then show ?thesis unfolding Pair
      by (simp add: createNode_displacement setDisplacement_def setCurrent_def wiredOnce_def)
  next
    assume "factoryOf B (nodeTypeId (snd e)) = None"
      "IsHoudiniPrincipledShaderHydraNode B (fst e) = None"
    then show ?thesis unfolding Pair
      by (simp add: createNode_unknown setCurrent_def wiredOnce_def wiredPaths_append)
  qed
qed

lemma createNodes_wiredOnce: "wiredOnce (createNodes B es s) = wiredOnce s"
  by (induction es arbitrary: s) (simp_all add: createNode_wiredOnce)

lemma createHoudiniNode_wiredOnce: "wiredOnce (createHoudiniNode B s) = wiredOnce s"
  by (simp add: createHoudiniNode_def wiredOnce_def split: option.splits prod.splits)

lemma wiredOnce_init: "wiredOnce (initBuildState x)"
  by (simp add: wiredOnce_def initBuildState_def)

lemma getTerminalOutput_wiredOnce:
  "wiredOnce s \<Longrightarrow> wiredOnce (snd (getTerminalOutput B net n t s))"
  by (simp add: getTerminalOutput_def getNodeOutput_wiredOnce split: option.splits)

lemma Finalize_wiredPaths:
  "wiredPaths (snd (snd (Finalize ctx sout dout vout name mid owned))) = []"
  by (simp add: Finalize_def Let_def getTerminalRprNode_def wiredPaths_append
        split: VtValue.splits option.splits)

lemma buildGraphMaterial_wiredOnce:
  assumes "buildGraphMaterial B mid net x fuel = Some (r, tr)"
  shows "distinct (wiredPaths tr)"
proof -
  let ?s2 = "createHoudiniNode B (createNodes B (nodes net) (initBuildState x))"
  have w2: "wiredOnce ?s2"
    by (simp add: createHoudiniNode_wiredOnce createNodes_wiredOnce wiredOnce_init)
  obtain v3 s3 where t3: "getTerminalOutput B net fuel (volumeToken B) ?s2 = (v3, s3)"
    by (cases "getTerminalOutput B net fuel (volumeToken B) ?s2")
  obtain v4 s4 where t4: "getTerminalOutput B net fuel (surfaceToken B) s3 = (v4, s4)"
    by (cases "getTerminalOutput B net fuel (surfaceToken B) s3")
  obtain v5 s5 where t5: "getTerminalOutput B net fuel (displacementToken B) s4 = (v5, s5)"
    by (cases "getTerminalOutput B net fuel (displacementToken B) s4")
  have "wiredOnce s3" using getTerminalOutput_wiredOnce [OF w2, of B net fuel "volumeToken B"] t3
    by simp
  then have "wiredOnce s4"
    using getTerminalOutput_wiredOnce [of s3 B net fuel "surfaceToken B"] t4 by simp
  then have w5: "wiredOnce s5"
    using getTerminalOutput_wiredOnce [of s4 B net fuel "displacementToken B"] t5 by simp
  from assms t3 t4 t5 obtain a b c out ok calls where
    fin: "Finalize (builderContext s5) b c a (c_str (cryptomatteName B mid net)) (materialRprId B net)
            (materialNodes s5) = (out, ok, calls)"
    and tr: "tr = trace s5 @ calls"
    by (auto simp: buildGraphMaterial_def Let_def split: option.splits prod.splits)
  have "wiredPaths calls = []"
    using Finalize_wiredPaths [of "builderContext s5" b c a "c_str (cryptomatteName B mid net)"
            "materialRprId B net" "materialNodes s5"] fin by simp
  with w5 show ?thesis unfolding tr by (simp add: wiredOnce_def wiredPaths_append)
qed

text \<open>A later visit of a built node reads its output and changes nothing else.\<close>

lemma getNodeOutput_visited:
  assumes "map_of (nodes net) (upstreamNode c) = Some node"
    and "materialNodes s (upstreamNode c) = Some mn" "upstreamNode c \<in> visited s"
  shows "getNodeOutput B net (Suc fuel) c s
           = (Some (GetOutput B (upstreamOutputName c) mn),
              record_step (GetOutputCall (upstreamNode c) (upstreamOutputName c)) s)"
  using assms by (simp add: callGetOutput_def)

lemma resolveFrame_built:
  "resolveFrame a b \<Longrightarrow> materialNodes a p \<noteq> None \<Longrightarrow> materialNodes b p \<noteq> None"
  unfolding resolveFrame_def by (metis domIff)

lemma resolveFrame_unbuilt:
  "resolveFrame a b \<Longrightarrow> materialNodes a p = None \<Longrightarrow> materialNodes b p = None"
  unfolding resolveFrame_def by (metis domIff)

lemma resolveFrame_trace:
  "resolveFrame a b \<Longrightarrow> e \<in> set (trace a) \<Longrightarrow> e \<in> set (trace b)"
  unfolding resolveFrame_def by auto

lemma callSetInput_recorded:
  "materialNodes s p \<noteq> None \<Longrightarrow> SetInputCall p i v \<in> set (trace (callSetInput B p i v s))"
  by (auto simp: callSetInput_def record_step_def)

lemmas resolve_sample_defs =
  built_def diamond_def emptyInput_def graph_sample_defs createHoudiniNode_def
  callGetOutput_def callSetInput_def Let_def

text \<open>The four ways one call of \<open>getNodeOutput\<close> goes.\<close>

lemma getNodeOutput_invalid:
  "map_of (nodes net) (upstreamNode c) = None \<Longrightarrow>
     getNodeOutput B net (Suc n) c s
       = (Some VtEmpty, record_step (Error_InvalidConnection (upstreamNode c)) s)"
  by (simp add: Let_def)

lemma getNodeOutput_unvisited:
  assumes "map_of (nodes net) (upstreamNode c) = Some node"
    and "materialNodes s (upstreamNode c) = Some mn" "upstreamNode c \<notin> visited s"
  shows "getNodeOutput B net (Suc n) c s
           = (case setNodeInputs B net n (upstreamNode c) (inputConnections node)
                     (record_step (WireInputs (upstreamNode c))
                        (s\<lparr>visited := insert (upstreamNode c) (visited s)\<rparr>)) of
                (True, s') \<Rightarrow> callGetOutput B (upstreamNode c) (upstreamOutputName c) s'
              | (False, s') \<Rightarrow> (None, s'))"
  using assms by (simp add: Let_def)

lemma getNodeOutput_unbuilt:
  assumes "map_of (nodes net) (upstreamNode c) = Some node"
    and "materialNodes s (upstreamNode c) = None"
  shows "getNodeOutput B net (Suc n) c s
           = (case inputConnections node of
                [] \<Rightarrow> (Some VtEmpty, s)
              | (inputId, []) # others \<Rightarrow> (Some VtEmpty, s)
              | (inputId, [connection]) # others \<Rightarrow> getNodeOutput B net n connection s
              | (inputId, c1 # c2 # cs) # others \<Rightarrow>
                  (Some VtEmpty, record_step Error_ConnectedArrayElements s))"
  using assms by (simp add: Let_def split: list.splits prod.splits)

lemma callGetOutput_returns: "fst (callGetOutput B p out s) \<noteq> None"
  by (simp add: callGetOutput_def split: option.splits)

text \<open>More fuel does not change a result that was reached.\<close>

lemma setNodeInputs_mono_step:
  assumes G: "\<And>c s v s'. getNodeOutput B net n c s = (Some v, s')
                 \<Longrightarrow> getNodeOutput B net (Suc n) c s = (Some v, s')"
  shows "setNodeInputs B net n p ins s = (True, s')
           \<Longrightarrow> setNodeInputs B net (Suc n) p ins s = (True, s')"
proof (induction ins arbitrary: s)
  case Nil
  then show ?case by simp
next
  case (Cons a rest)
  obtain i0 conns where a: "a = (i0, conns)" by (cases a)
  show ?case
  proof (cases conns)
    case Nil
    with Cons a show ?thesis by simp
  next
    case c1: (Cons k0 ks)
    show ?thesis
    proof (cases ks)
      case Nil
      obtain r0 s1 where g: "getNodeOutput B net n k0 s = (r0, s1)"
        by (cases "getNodeOutput B net n k0 s")
      from Cons.prems a c1 Nil g obtain v where v: "r0 = Some v" by (cases r0) simp_all
      from G [of k0 s v s1] g v have g': "getNodeOutput B net (Suc n) k0 s = (Some v, s1)" by simp
      from Cons.prems a c1 Nil g v
      have "setNodeInputs B net n p rest
              (if v \<noteq> VtEmpty then callSetInput B p i0 v s1 else s1) = (True, s')" by simp
      from Cons.IH [OF this] a c1 Nil g' show ?thesis by (simp del: getNodeOutput.simps)
    next
      case c2: (Cons k2 ks2)
      with Cons a c1 show ?thesis by simp
    qed
  qed
qed

lemma getNodeOutput_mono_step:
  "getNodeOutput B net n c s = (Some v, s') \<Longrightarrow> getNodeOutput B net (Suc n) c s = (Some v, s')"
proof (induction n arbitrary: c s v s')
  case 0
  then show ?case by simp
next
  case (Suc n)
  note S = setNodeInputs_mono_step [of B net n, OF Suc.IH]
  let ?p = "upstreamNode c"
  show ?case
  proof (cases "map_of (nodes net) ?p")
    case None
    with Suc.prems show ?thesis by (simp only: getNodeOutput_invalid)
  next
    case (Some node)
    show ?thesis
    proof (cases "materialNodes s ?p")
      case built: (Some mn)
      show ?thesis
      proof (cases "?p \<in> visited s")
        case True
        with Suc.prems Some built show ?thesis by (simp only: getNodeOutput_visited)
      next
        case False
        let ?s0 = "record_step (WireInputs ?p) (s\<lparr>visited := insert ?p (visited s)\<rparr>)"
        obtain ok w where sn: "setNodeInputs B net n ?p (inputConnections node) ?s0 = (ok, w)"
          by (cases "setNodeInputs B net n ?p (inputConnections node) ?s0")
        from Suc.prems sn have ok: "ok"
          unfolding getNodeOutput_unvisited [OF Some built False] by (cases ok) simp_all
        with sn S [of ?p "inputConnections node" ?s0 w]
        have "setNodeInputs B net (Suc n) ?p (inputConnections node) ?s0 = (True, w)" by simp
        moreover from Suc.prems sn ok
        have "callGetOutput B ?p (upstreamOutputName c) w = (Some v, s')"
          unfolding getNodeOutput_unvisited [OF Some built False] by simp
        ultimately show ?thesis
          unfolding getNodeOutput_unvisited [OF Some built False] by simp
      qed
    next
      case unbuilt: None
      show ?thesis
      proof (cases "inputConnections node")
        case Nil
        with Suc.prems show ?thesis unfolding getNodeOutput_unbuilt [OF Some unbuilt] by simp
      next
        case (Cons a others)
        obtain inputId connections where a: "a = (inputId, connections)" by (cases a)
        show ?thesis
        proof (cases connections)
          case Nil
          with Suc.prems Cons a show ?thesis
            unfolding getNodeOutput_unbuilt [OF Some unbuilt] by simp
        next
          case c1: (Cons k ks)
          show ?thesis
          proof (cases ks)
            case Nil
            with Suc.prems Cons a c1 have "getNodeOutput B net n k s = (Some v, s')"
              unfolding getNodeOutput_unbuilt [OF Some unbuilt] by simp
            from Suc.IH [OF this] Cons a c1 Nil show ?thesis
              unfolding getNodeOutput_unbuilt [OF Some unbuilt] by simp
          next
            case c2: (Cons k2 ks2)
            with Suc.prems Cons a c1 show ?thesis
              unfolding getNodeOutput_unbuilt [OF Some unbuilt] by simp
          qed
        qed
      qed
    qed
  qed
qed

lemma getNodeOutput_mono:
  "getNodeOutput B net n c s = (Some v, s') \<Longrightarrow> n \<le> m
     \<Longrightarrow> getNodeOutput B net m c s = (Some v, s')"
proof (induction m)
  case 0
  then show ?case by simp
next
  case (Suc m)
  show ?case
  proof (cases "n = Suc m")
    case True
    with Suc.prems show ?thesis by simp
  next
    case False
    with Suc.prems have "n \<le> m" by simp
    from getNodeOutput_mono_step [OF Suc.IH [OF Suc.prems(1) this]] show ?thesis .
  qed
qed

lemma ranked_connection:
  assumes "ranked net rank" "map_of (nodes net) p = Some node"
    and "(i, ks) \<in> set (inputConnections node)" "k \<in> set ks"
  shows "rank (upstreamNode k) < rank p"
proof -
  from assms(2) have "(p, node) \<in> set (nodes net)" by (rule map_of_SomeD)
  with assms(1,3,4) show ?thesis
    unfolding ranked_def list_all_iff by fastforce
qed

text \<open>In a ranked network the loop over the inputs comes back when the calls it makes do.\<close>

lemma setNodeInputs_returns:
  assumes G: "\<And>k s. rank (upstreamNode k) < n \<Longrightarrow> fst (getNodeOutput B net n k s) \<noteq> None"
    and "\<And>i ks k. (i, ks) \<in> set ins \<Longrightarrow> k \<in> set ks \<Longrightarrow> rank (upstreamNode k) < n"
  shows "fst (setNodeInputs B net n p ins s)"
  using assms(2)
proof (induction ins arbitrary: s)
  case Nil
  show ?case by simp
next
  case (Cons a rest)
  obtain i0 conns where a: "a = (i0, conns)" by (cases a)
  have rest: "\<And>i ks k. (i, ks) \<in> set rest \<Longrightarrow> k \<in> set ks \<Longrightarrow> rank (upstreamNode k) < n"
    using Cons.prems by (meson list.set_intros(2))
  show ?case
  proof (cases conns)
    case Nil
    with a Cons.IH [OF rest] show ?thesis by simp
  next
    case c1: (Cons k0 ks)
    show ?thesis
    proof (cases ks)
      case Nil
      have "rank (upstreamNode k0) < n"
        using Cons.prems [of i0 conns k0] a c1 by simp
      from G [OF this, of s] obtain v s1 where g: "getNodeOutput B net n k0 s = (Some v, s1)"
        by (cases "getNodeOutput B net n k0 s") auto
      with a c1 Nil Cons.IH [OF rest] show ?thesis by (simp del: getNodeOutput.simps)
    next
      case c2: (Cons k2 ks2)
      with a c1 Cons.IH [OF rest] show ?thesis by simp
    qed
  qed
qed

lemma getNodeOutput_returns:
  assumes "ranked net rank"
  shows "rank (upstreamNode c) < n \<Longrightarrow> fst (getNodeOutput B net n c s) \<noteq> None"
proof (induction n arbitrary: c s)
  case 0
  then show ?case by simp
next
  case (Suc n)
  let ?p = "upstreamNode c"
  show ?case
  proof (cases "map_of (nodes net) ?p")
    case None
    then show ?thesis by (simp only: getNodeOutput_invalid) simp
  next
    case (Some node)
    have below: "\<And>i ks k. (i, ks) \<in> set (inputConnections node) \<Longrightarrow> k \<in> set ks
                    \<Longrightarrow> rank (upstreamNode k) < n"
      using ranked_connection [OF assms Some] Suc.prems by fastforce
    show ?thesis
    proof (cases "materialNodes s ?p")
      case built: (Some mn)
      show ?thesis
      proof (cases "?p \<in> visited s")
        case True
        with Some built show ?thesis by (simp only: getNodeOutput_visited) simp
      next
        case False
        let ?s0 = "record_step (WireInputs ?p) (s\<lparr>visited := insert ?p (visited s)\<rparr>)"
        obtain ok w where sn: "setNodeInputs B net n ?p (inputConnections node) ?s0 = (ok, w)"
          by (cases "setNodeInputs B net n ?p (inputConnections node) ?s0")
        from setNodeInputs_returns [of rank n B net "inputConnections node" ?p ?s0,
               OF Suc.IH below] sn
        have ok by simp
        with sn show ?thesis
          unfolding getNodeOutput_unvisited [OF Some built False]
          by (simp add: callGetOutput_returns)
      qed
    next
      case unbuilt: None
      show ?thesis
      proof (cases "inputConnections node")
        case Nil
        then show ?thesis unfolding getNodeOutput_unbuilt [OF Some unbuilt] by simp
      next
        case (Cons a others)
        obtain inputId connections where a: "a = (inputId, connections)" by (cases a)
        show ?thesis
        proof (cases connections)
          case Nil
          with Cons a show ?thesis unfolding getNodeOutput_unbuilt [OF Some unbuilt] by simp
        next
          case c1: (Cons k ks)
          show ?thesis
          proof (cases ks)
            case Nil
            have "rank (upstreamNode k) < n" using below [of inputId connections k] Cons a c1
              by simp
            from Suc.IH [OF this, of s] Cons a c1 Nil show ?thesis
              unfolding getNodeOutput_unbuilt [OF Some unbuilt] by simp
          next
            case c2: (Cons k2 ks2)
            with Cons a c1 show ?thesis
              unfolding getNodeOutput_unbuilt [OF Some unbuilt] by simp
          qed
        qed
      qed
    qed
  qed
qed

lemma getTerminalOutput_returns:
  assumes "ranked net rank" "list_all (\<lambda>t. rank (upstreamNode (snd t)) < n) (terminals net)"
  shows "fst (getTerminalOutput B net n name s) \<noteq> None"
proof (cases "map_of (terminals net) name")
  case None
  then show ?thesis by (simp add: getTerminalOutput_def)
next
  case (Some k)
  then have "(name, k) \<in> set (terminals net)" by (rule map_of_SomeD)
  with assms(2) have "rank (upstreamNode k) < n" unfolding list_all_iff by fastforce
  from getNodeOutput_returns [OF assms(1) this] Some show ?thesis
    by (simp add: getTerminalOutput_def)
qed

lemma resolveTerminals_returns:
  assumes "ranked net rank" "list_all (\<lambda>t. rank (upstreamNode (snd t)) < n) (terminals net)"
  shows "\<exists>vo so dout s5. resolveTerminals B net x n = (Some vo, Some so, Some dout, s5)"
proof -
  note R = getTerminalOutput_returns [OF assms]
  let ?s2 = "createHoudiniNode B (createNodes B (nodes net) (initBuildState x))"
  obtain v3 s3 where t3: "getTerminalOutput B net n (volumeToken B) ?s2 = (Some v3, s3)"
    using R [of B "volumeToken B" ?s2]
    by (cases "getTerminalOutput B net n (volumeToken B) ?s2") auto
  obtain v4 s4 where t4: "getTerminalOutput B net n (surfaceToken B) s3 = (Some v4, s4)"
    using R [of B "surfaceToken B" s3]
    by (cases "getTerminalOutput B net n (surfaceToken B) s3") auto
  obtain v5 s5 where t5: "getTerminalOutput B net n (displacementToken B) s4 = (Some v5, s5)"
    using R [of B "displacementToken B" s4]
    by (cases "getTerminalOutput B net n (displacementToken B) s4") auto
  from t3 t4 t5 show ?thesis by (simp add: resolveTerminals_def)
qed

text \<open>The graph-based build in terms of the three terminal outputs.\<close>

lemma buildGraphMaterial_resolved:
  assumes "resolveTerminals B net x n = (Some vo, Some so, Some dout, s5)"
  shows "buildGraphMaterial B mid net x n
           = (case Finalize (builderContext s5) so dout vo (c_str (cryptomatteName B mid net))
                     (materialRprId B net) (materialNodes s5) of
                (out, ok, calls) \<Rightarrow>
                  Some (if ok then Some (GraphBased out) else None, trace s5 @ calls))"
  using assms
  by (auto simp: resolveTerminals_def buildGraphMaterial_def Let_def split: prod.splits option.splits)

lemma buildGraphMaterial_returned:
  assumes "buildGraphMaterial B mid net x n = Some (res, tr)"
  shows "\<exists>vo so dout s5. resolveTerminals B net x n = (Some vo, Some so, Some dout, s5)"
  using assms
  by (auto simp: resolveTerminals_def buildGraphMaterial_def Let_def split: prod.splits option.splits)

lemma createNode_untagged: "untagged (createNode B e s) = untagged s"
proof (cases e)
  case (Pair p node)
  from entry_kinds [of B e] show ?thesis
  proof (elim disjE exE conjE)
    fix f assume f: "factoryOf B (nodeTypeId (snd e)) = Some f"
    obtain r ctx where r: "f ((builderContext s)\<lparr>currentNodePath := Some p\<rparr>) (parameters node) = (r, ctx)"
      by (cases "f ((builderContext s)\<lparr>currentNodePath := Some p\<rparr>) (parameters node)")
    from f Pair have f': "factoryOf B (nodeTypeId node) = Some f" by simp
    show ?thesis unfolding Pair createNode_registered [OF f' r]
      by (cases r) (simp_all add: untagged_def)
  next
    assume "isSurfacePart B e"
    then show ?thesis unfolding Pair
      by (simp add: createNode_surface setSurface_def setCurrent_def untagged_def)
  next
    assume "isDisplacementPart B e"
    then show ?thesis unfolding Pair
      by (simp add: createNode_displacement setDisplacement_def setCurrent_def untagged_def)
  next
    assume "factoryOf B (nodeTypeId (snd e)) = None"
      "IsHoudiniPrincipledShaderHydraNode B (fst e) = None"
    then show ?thesis unfolding Pair
      by (simp add: createNode_unknown setCurrent_def untagged_def)
  qed
qed

lemma createNodes_untagged: "untagged (createNodes B es s) = untagged s"
  by (induction es arbitrary: s) (simp_all add: createNode_untagged)

lemma createHoudiniNode_untagged: "untagged (createHoudiniNode B s) = untagged s"
  by (simp add: createHoudiniNode_def untagged_def split: option.splits prod.splits)

lemma resolveStep_noTag: "isResolveStep e \<Longrightarrow> \<not> isTag e"
  by (cases e) simp_all

lemma resolveFrame_untagged: "resolveFrame s s' \<Longrightarrow> untagged s \<Longrightarrow> untagged s'"
  unfolding resolveFrame_def untagged_def
  by (auto simp: list_all_iff dest: resolveStep_noTag)

lemma getTerminalOutput_frame: "resolveFrame s (snd (getTerminalOutput B net n t s))"
  by (simp add: getTerminalOutput_def resolveFrame_refl getNodeOutput_frame split: option.splits)

lemma resolveTerminals_untagged:
  assumes "resolveTerminals B net x n = (vo, so, dout, s5)"
  shows "untagged s5"
proof -
  let ?s2 = "createHoudiniNode B (createNodes B (nodes net) (initBuildState x))"
  have u2: "untagged ?s2"
    by (simp add: createHoudiniNode_untagged createNodes_untagged)
       (simp add: untagged_def initBuildState_def)
  obtain v3 s3 where t3: "getTerminalOutput B net n (volumeToken B) ?s2 = (v3, s3)"
    by (cases "getTerminalOutput B net n (volumeToken B) ?s2")
  obtain v4 s4 where t4: "getTerminalOutput B net n (surfaceToken B) s3 = (v4, s4)"
    by (cases "getTerminalOutput B net n (surfaceToken B) s3")
  obtain v5 s5' where t5: "getTerminalOutput B net n (displacementToken B) s4 = (v5, s5')"
    by (cases "getTerminalOutput B net n (displacementToken B) s4")
  have "untagged s3"
    using resolveFrame_untagged [OF getTerminalOutput_frame [of ?s2 B net n "volumeToken B"] u2] t3
    by simp
  then have "untagged s4"
    using resolveFrame_untagged [OF getTerminalOutput_frame [of s3 B net n "surfaceToken B"]] t4
    by simp
  then have "untagged s5'"
    using resolveFrame_untagged [OF getTerminalOutput_frame [of s4 B net n "displacementToken B"]] t5
    by simp
  moreover from assms t3 t4 t5 have "s5 = s5'" by (simp add: resolveTerminals_def)
  ultimately show ?thesis by simp
qed

lemma Finalize_result:
  "fst (snd (Finalize ctx so dout vo name mid owned))
     \<longleftrightarrow> fst (getTerminalRprNode vo) \<noteq> None \<or> fst (getTerminalRprNode so) \<noteq> None
          \<or> fst (getTerminalRprNode dout) \<noteq> None"
  "m_surfaceNode (fst (Finalize ctx so dout vo name mid owned)) = fst (getTerminalRprNode so)"
  "ownedMaterialNodes (fst (Finalize ctx so dout vo name mid owned)) = owned"
  by (simp_all add: Finalize_def Let_def)

lemma getTerminalRprNode_noTag: "list_all (\<lambda>e. \<not> isTag e) (snd (getTerminalRprNode v))"
  by (cases v) (simp_all add: getTerminalRprNode_def)

lemma Finalize_tags:
  "MaterialNodeSetID node w \<in> set (snd (snd (Finalize ctx so dout vo name mid owned)))
     \<longleftrightarrow> fst (getTerminalRprNode so) = Some node \<and> w = mid \<and> 0 \<le> sint mid"
proof -
  have "\<And>v. MaterialNodeSetID node w \<notin> set (snd (getTerminalRprNode v))"
    using getTerminalRprNode_noTag unfolding list_all_iff by fastforce
  then show ?thesis
    by (auto simp: Finalize_def Let_def split: option.splits)
qed

lemmas build_sample_defs =
  buildGraphMaterial_def resolveTerminals_def getTerminalOutput_def Finalize_def
  getTerminalRprNode_def cryptomatteName_def c_str_def materialRprId_def surfaceNodeParameters_def
  CreateMaterial_def CreateMaterialXFromUsdShade_def mtlxNetwork_def taggedNetwork_def
  unknownSurface_def diamondRank_def ranked_def
  resolve_sample_defs

lemma mapInput_pair: "mapInput h (i, ks) = (i, map h ks)"
  by (simp add: mapInput_def)

lemma mapInput_id: "mapInput (\<lambda>k. k) = (\<lambda>input. input)"
  by (rule ext) (simp add: mapInput_def)

lemma mapConnections_id [simp]: "mapConnections (\<lambda>k. k) node = node"
  by (simp add: mapConnections_def mapInput_id)

lemma map_of_removed_nodes:
  "map_of (nodes (removeNode b c net)) p
     = (if p = b then None else map_option (mapConnections (redirect b c)) (map_of (nodes net) p))"
proof -
  have "\<And>es. map_of (map (\<lambda>entry. (fst entry, mapConnections (redirect b c) (snd entry)))
                (filter (\<lambda>entry. fst entry \<noteq> b) es)) p
     = (if p = b then None else map_option (mapConnections (redirect b c)) (map_of es p))"
  proof -
    fix es :: "(SdfPath \<times> HdMaterialNode2) list"
    show "map_of (map (\<lambda>entry. (fst entry, mapConnections (redirect b c) (snd entry)))
                (filter (\<lambda>entry. fst entry \<noteq> b) es)) p
     = (if p = b then None else map_option (mapConnections (redirect b c)) (map_of es p))"
      by (induction es) auto
  qed
  then show ?thesis by (simp add: removeNode_def)
qed

lemma map_of_removed_terminals:
  "map_of (terminals (removeNode b c net)) t = map_option (redirect b c) (map_of (terminals net) t)"
proof -
  have "\<And>ts. map_of (map (\<lambda>t. (fst t, redirect b c (snd t))) ts) t
               = map_option (redirect b c) (map_of ts t)"
  proof -
    fix ts :: "(TfToken \<times> HdMaterialConnection2) list"
    show "map_of (map (\<lambda>t. (fst t, redirect b c (snd t))) ts) t
               = map_option (redirect b c) (map_of ts t)"
      by (induction ts) auto
  qed
  then show ?thesis by (simp add: removeNode_def)
qed

text \<open>
  Two networks whose nodes carry the same inputs up to a renaming of the connections, and
  two fuels such that renamed calls that return in the first return the same in the
  second: the same holds for the loop over the inputs and for one more level of calls.
\<close>

lemma setNodeInputs_sim:
  assumes H: "\<And>k s v s'. P s \<Longrightarrow> getNodeOutput B N1 n1 (f k) s = (Some v, s')
                 \<Longrightarrow> getNodeOutput B N2 n2 (g k) s = (Some v, s')"
    and pres: "\<And>s s'. P s \<Longrightarrow> resolveFrame s s' \<Longrightarrow> P s'"
  shows "P s \<Longrightarrow> setNodeInputs B N1 n1 p (map (mapInput f) ins) s = (True, s')
           \<Longrightarrow> setNodeInputs B N2 n2 p (map (mapInput g) ins) s = (True, s')"
proof (induction ins arbitrary: s)
  case Nil
  then show ?case by simp
next
  case (Cons a rest)
  obtain i0 conns where a: "a = (i0, conns)" by (cases a)
  show ?case
  proof (cases conns)
    case Nil
    with Cons a show ?thesis by (simp add: mapInput_pair)
  next
    case c1: (Cons k0 ks)
    show ?thesis
    proof (cases ks)
      case Nil
      obtain r0 s1 where g1: "getNodeOutput B N1 n1 (f k0) s = (r0, s1)"
        by (cases "getNodeOutput B N1 n1 (f k0) s")
      from Cons.prems(2) a c1 Nil g1 obtain v where v: "r0 = Some v"
        by (cases r0) (simp_all add: mapInput_pair del: getNodeOutput.simps)
      from H [OF Cons.prems(1)] g1 v have g2: "getNodeOutput B N2 n2 (g k0) s = (Some v, s1)"
        by simp
      let ?s2 = "if v \<noteq> VtEmpty then callSetInput B p i0 v s1 else s1"
      have "resolveFrame s s1" using getNodeOutput_frame [of s B N1 n1 "f k0"] g1 by simp
      moreover have "resolveFrame s1 ?s2" by (simp add: resolveFrame_refl resolveFrame_setInput)
      ultimately have "resolveFrame s ?s2" by (rule resolveFrame_trans)
      with Cons.prems(1) have P2: "P ?s2" by (rule pres)
      from Cons.prems(2) a c1 Nil g1 v
      have "setNodeInputs B N1 n1 p (map (mapInput f) rest) ?s2 = (True, s')"
        by (simp add: mapInput_pair del: getNodeOutput.simps)
      from Cons.IH [OF P2 this] a c1 Nil g2 show ?thesis
        by (simp add: mapInput_pair del: getNodeOutput.simps)
    next
      case c2: (Cons k2 ks2)
      let ?s2 = "record_step Error_ConnectedArrayElements s"
      have "P ?s2" using Cons.prems(1) by (rule pres) (simp add: resolveFrame_step)
      moreover from Cons.prems(2) a c1 c2
      have "setNodeInputs B N1 n1 p (map (mapInput f) rest) ?s2 = (True, s')"
        by (simp add: mapInput_pair)
      ultimately have "setNodeInputs B N2 n2 p (map (mapInput g) rest) ?s2 = (True, s')"
        by (rule Cons.IH)
      with a c1 c2 show ?thesis by (simp add: mapInput_pair)
    qed
  qed
qed

lemma getNodeOutput_sim_step:
  assumes l1: "map_of (nodes N1) (upstreamNode k)
                 = map_option (mapConnections f) (map_of (nodes N) (upstreamNode k))"
    and l2: "map_of (nodes N2) (upstreamNode k)
                 = map_option (mapConnections g) (map_of (nodes N) (upstreamNode k))"
    and H: "\<And>k s v s'. P s \<Longrightarrow> getNodeOutput B N1 n1 (f k) s = (Some v, s')
                 \<Longrightarrow> getNodeOutput B N2 n2 (g k) s = (Some v, s')"
    and pres: "\<And>s s'. P s \<Longrightarrow> resolveFrame s s' \<Longrightarrow> P s'"
    and P: "P s"
    and run: "getNodeOutput B N1 (Suc n1) k s = (Some v, s')"
  shows "getNodeOutput B N2 (Suc n2) k s = (Some v, s')"
proof -
  let ?p = "upstreamNode k"
  show ?thesis
  proof (cases "map_of (nodes N) ?p")
    case None
    with l1 l2 have "map_of (nodes N1) ?p = None" "map_of (nodes N2) ?p = None" by simp_all
    with run show ?thesis by (simp only: getNodeOutput_invalid)
  next
    case (Some node)
    let ?ins = "inputConnections node"
    from Some l1 have m1: "map_of (nodes N1) ?p = Some (mapConnections f node)" by simp
    from Some l2 have m2: "map_of (nodes N2) ?p = Some (mapConnections g node)" by simp
    have i1: "inputConnections (mapConnections f node) = map (mapInput f) ?ins"
      and i2: "inputConnections (mapConnections g node) = map (mapInput g) ?ins"
      by (simp_all add: mapConnections_def)
    show ?thesis
    proof (cases "materialNodes s ?p")
      case built: (Some mn)
      show ?thesis
      proof (cases "?p \<in> visited s")
        case True
        from run show ?thesis
          unfolding getNodeOutput_visited [OF m1 built True]
            getNodeOutput_visited [OF m2 built True] .
      next
        case False
        let ?s0 = "record_step (WireInputs ?p) (s\<lparr>visited := insert ?p (visited s)\<rparr>)"
        obtain ok w where sn: "setNodeInputs B N1 n1 ?p (map (mapInput f) ?ins) ?s0 = (ok, w)"
          by (cases "setNodeInputs B N1 n1 ?p (map (mapInput f) ?ins) ?s0")
        from run sn have ok: "ok"
          unfolding getNodeOutput_unvisited [OF m1 built False] i1 by (cases ok) simp_all
        from run sn ok have out: "callGetOutput B ?p (upstreamOutputName k) w = (Some v, s')"
          unfolding getNodeOutput_unvisited [OF m1 built False] i1 by simp
        have "P ?s0" using P by (rule pres) (rule resolveFrame_wire)
        from setNodeInputs_sim [of P B N1 n1 f N2 n2 g, OF H pres this] sn ok
        have "setNodeInputs B N2 n2 ?p (map (mapInput g) ?ins) ?s0 = (True, w)" by simp
        with out show ?thesis
          unfolding getNodeOutput_unvisited [OF m2 built False] i2 by simp
      qed
    next
      case unbuilt: None
      show ?thesis
      proof (cases ?ins)
        case Nil
        with run show ?thesis
          unfolding getNodeOutput_unbuilt [OF m1 unbuilt] getNodeOutput_unbuilt [OF m2 unbuilt]
            i1 i2 by simp
      next
        case (Cons a others)
        obtain inputId connections where a: "a = (inputId, connections)" by (cases a)
        show ?thesis
        proof (cases connections)
          case Nil
          with run Cons a show ?thesis
            unfolding getNodeOutput_unbuilt [OF m1 unbuilt] getNodeOutput_unbuilt [OF m2 unbuilt]
              i1 i2 by (simp add: mapInput_pair)
        next
          case c1: (Cons k1 ks)
          show ?thesis
          proof (cases ks)
            case Nil
            from run Cons a c1 Nil have "getNodeOutput B N1 n1 (f k1) s = (Some v, s')"
              unfolding getNodeOutput_unbuilt [OF m1 unbuilt] i1 by (simp add: mapInput_pair)
            from H [OF P this] Cons a c1 Nil show ?thesis
              unfolding getNodeOutput_unbuilt [OF m2 unbuilt] i2 by (simp add: mapInput_pair)
          next
            case c2: (Cons k2 ks2)
            with run Cons a c1 show ?thesis
              unfolding getNodeOutput_unbuilt [OF m1 unbuilt] getNodeOutput_unbuilt [OF m2 unbuilt]
                i1 i2 by (simp add: mapInput_pair)
          qed
        qed
      qed
    qed
  qed
qed

lemma map_option_mapConnections_id [simp]: "map_option (mapConnections (\<lambda>k. k)) x = x"
  by (cases x) simp_all

lemma getNodeOutput_pass:
  assumes "map_of (nodes net) b = Some nb" "inputConnections nb = (ib, [c]) # others"
    and "materialNodes s b = None" "upstreamNode k = b"
  shows "getNodeOutput B net (Suc n) k s = getNodeOutput B net n c s"
proof -
  from assms(1,3,4) have m: "map_of (nodes net) (upstreamNode k) = Some nb"
    and u: "materialNodes s (upstreamNode k) = None" by simp_all
  show ?thesis unfolding getNodeOutput_unbuilt [OF m u] assms(2) by simp
qed

text \<open>What a network resolves, the network without the unbuilt node resolves with the same fuel.\<close>

lemma removeNode_keeps:
  assumes "map_of (nodes net) b = Some nb" "inputConnections nb = (ib, [c]) # others"
    and "upstreamNode c \<noteq> b"
  shows "materialNodes s b = None \<Longrightarrow> getNodeOutput B net n k s = (Some v, s')
           \<Longrightarrow> getNodeOutput B (removeNode b c net) n (redirect b c k) s = (Some v, s')"
proof (induction n arbitrary: k s v s')
  case 0
  then show ?case by simp
next
  case (Suc n)
  show ?case
  proof (cases "upstreamNode k = b")
    case True
    from Suc.prems(2) have "getNodeOutput B net n c s = (Some v, s')"
      unfolding getNodeOutput_pass [OF assms(1,2) Suc.prems(1) True] .
    from Suc.IH [OF Suc.prems(1) this] assms(3)
    have "getNodeOutput B (removeNode b c net) n c s = (Some v, s')" by (simp add: redirect_def)
    from getNodeOutput_mono_step [OF this] True show ?thesis by (simp add: redirect_def)
  next
    case False
    have l1: "map_of (nodes net) (upstreamNode k)
                = map_option (mapConnections (\<lambda>k. k)) (map_of (nodes net) (upstreamNode k))"
      by simp
    have l2: "map_of (nodes (removeNode b c net)) (upstreamNode k)
                = map_option (mapConnections (redirect b c)) (map_of (nodes net) (upstreamNode k))"
      using False by (simp add: map_of_removed_nodes)
    have "getNodeOutput B (removeNode b c net) (Suc n) k s = (Some v, s')"
      by (rule getNodeOutput_sim_step
             [of net k "\<lambda>k. k" net "removeNode b c net" "redirect b c"
                 "\<lambda>s. materialNodes s b = None" B n n s v s',
              OF l1 l2 Suc.IH resolveFrame_unbuilt Suc.prems(1) Suc.prems(2)])
    with False show ?thesis by (simp add: redirect_def)
  qed
qed

text \<open>What the network without the node resolves, the network resolves, with fuel for the
  extra pass through the node.\<close>

lemma removeNode_reflects_aux:
  assumes "map_of (nodes net) b = Some nb" "inputConnections nb = (ib, [c]) # others"
    and "upstreamNode c \<noteq> b"
  shows "materialNodes s b = None \<Longrightarrow> upstreamNode k \<noteq> b
           \<Longrightarrow> getNodeOutput B (removeNode b c net) n k s = (Some v, s')
           \<Longrightarrow> getNodeOutput B net (2 * n) k s = (Some v, s')"
proof (induction n arbitrary: k s v s')
  case 0
  then show ?case by simp
next
  case (Suc n)
  have H: "\<And>k s v s'. materialNodes s b = None
             \<Longrightarrow> getNodeOutput B (removeNode b c net) n (redirect b c k) s = (Some v, s')
             \<Longrightarrow> getNodeOutput B net (Suc (2 * n)) k s = (Some v, s')"
  proof -
    fix k s v s'
    assume u: "materialNodes s b = None"
      and r: "getNodeOutput B (removeNode b c net) n (redirect b c k) s = (Some v, s')"
    show "getNodeOutput B net (Suc (2 * n)) k s = (Some v, s')"
    proof (cases "upstreamNode k = b")
      case True
      with r have "getNodeOutput B (removeNode b c net) n c s = (Some v, s')"
        by (simp add: redirect_def)
      from Suc.IH [OF u assms(3) this] show ?thesis
        unfolding getNodeOutput_pass [OF assms(1,2) u True] .
    next
      case False
      with r have "getNodeOutput B (removeNode b c net) n k s = (Some v, s')"
        by (simp add: redirect_def)
      from getNodeOutput_mono_step [OF Suc.IH [OF u False this]] show ?thesis .
    qed
  qed
  have l1: "map_of (nodes (removeNode b c net)) (upstreamNode k)
                = map_option (mapConnections (redirect b c)) (map_of (nodes net) (upstreamNode k))"
    using Suc.prems(2) by (simp add: map_of_removed_nodes)
  have l2: "map_of (nodes net) (upstreamNode k)
                = map_option (mapConnections (\<lambda>k. k)) (map_of (nodes net) (upstreamNode k))"
    by simp
  have "getNodeOutput B net (Suc (Suc (2 * n))) k s = (Some v, s')"
    by (rule getNodeOutput_sim_step
           [of "removeNode b c net" k "redirect b c" net net "\<lambda>k. k"
               "\<lambda>s. materialNodes s b = None" B n "Suc (2 * n)" s v s',
            OF l1 l2 H resolveFrame_unbuilt Suc.prems(1) Suc.prems(3)])
  then show ?case by simp
qed

lemma removeNode_reflects:
  assumes "map_of (nodes net) b = Some nb" "inputConnections nb = (ib, [c]) # others"
    and "upstreamNode c \<noteq> b" "materialNodes s b = None"
    and "getNodeOutput B (removeNode b c net) n (redirect b c k) s = (Some v, s')"
  shows "getNodeOutput B net (Suc (2 * n)) k s = (Some v, s')"
proof (cases "upstreamNode k = b")
  case True
  with assms(5) have "getNodeOutput B (removeNode b c net) n c s = (Some v, s')"
    by (simp add: redirect_def)
  from removeNode_reflects_aux [OF assms(1-4) assms(3) this] show ?thesis
    unfolding getNodeOutput_pass [OF assms(1,2,4) True] .
next
  case False
  with assms(5) have "getNodeOutput B (removeNode b c net) n k s = (Some v, s')"
    by (simp add: redirect_def)
  from getNodeOutput_mono_step [OF removeNode_reflects_aux [OF assms(1-4) False this]]
  show ?thesis .
qed

lemma removeNode_terminal_keeps:
  assumes "map_of (nodes net) b = Some nb" "inputConnections nb = (ib, [c]) # others"
    and "upstreamNode c \<noteq> b" "materialNodes s b = None"
    and "getTerminalOutput B net n t s = (Some v, s')"
  shows "getTerminalOutput B (removeNode b c net) n t s = (Some v, s')"
proof (cases "map_of (terminals net) t")
  case None
  with assms(5) show ?thesis by (simp add: getTerminalOutput_def map_of_removed_terminals)
next
  case (Some k)
  with assms(5) have "getNodeOutput B net n k s = (Some v, s')"
    by (simp add: getTerminalOutput_def)
  from removeNode_keeps [OF assms(1-4) this] Some show ?thesis
    by (simp add: getTerminalOutput_def map_of_removed_terminals)
qed

lemma removeNode_terminal_reflects:
  assumes "map_of (nodes net) b = Some nb" "inputConnections nb = (ib, [c]) # others"
    and "upstreamNode c \<noteq> b" "materialNodes s b = None"
    and "getTerminalOutput B (removeNode b c net) n t s = (Some v, s')"
  shows "getTerminalOutput B net (Suc (2 * n)) t s = (Some v, s')"
proof (cases "map_of (terminals net) t")
  case None
  with assms(5) show ?thesis by (simp add: getTerminalOutput_def map_of_removed_terminals)
next
  case (Some k)
  with assms(5) have "getNodeOutput B (removeNode b c net) n (redirect b c k) s = (Some v, s')"
    by (simp add: getTerminalOutput_def map_of_removed_terminals)
  from removeNode_reflects [OF assms(1-4) this] Some show ?thesis
    by (simp add: getTerminalOutput_def)
qed

lemmas chain_sample_defs =
  chain_def chainRank_def arrayInput_def removeNode_def redirect_def mapConnections_def
  mapInput_def getTerminalOutput_def ranked_def resolve_sample_defs

text \<open>The tags of a graph-based build that returned, whatever the network and the fuel.\<close>

lemma buildGraphMaterial_tags:
  assumes "buildGraphMaterial B mid net x n = Some (res, tr)"
  shows "(MaterialNodeSetID node w \<in> set tr \<longleftrightarrow>
            (\<exists>out. res = Some (GraphBased out) \<and> m_surfaceNode out = Some node)
            \<and> w = materialRprId B net \<and> 0 \<le> sint (materialRprId B net))
       \<and> res \<noteq> Some (RprUsdMaterial_RprApiMtlx k)"
proof -
  from buildGraphMaterial_returned [OF assms] obtain vo so dout s5 where
    rt: "resolveTerminals B net x n = (Some vo, Some so, Some dout, s5)" by blast
  let ?F = "Finalize (builderContext s5) so dout vo (c_str (cryptomatteName B mid net))
              (materialRprId B net) (materialNodes s5)"
  obtain out ok calls where fin: "?F = (out, ok, calls)" by (cases ?F)
  from assms have res: "res = (if ok then Some (GraphBased out) else None)"
    and tr: "tr = trace s5 @ calls"
    unfolding buildGraphMaterial_resolved [OF rt] fin by simp_all
  have ok: "ok \<longleftrightarrow> fst (getTerminalRprNode vo) \<noteq> None \<or> fst (getTerminalRprNode so) \<noteq> None
          \<or> fst (getTerminalRprNode dout) \<noteq> None"
    using Finalize_result(1) [of "builderContext s5" so dout vo "c_str (cryptomatteName B mid net)"
            "materialRprId B net" "materialNodes s5"] fin by simp
  have surf: "m_surfaceNode out = fst (getTerminalRprNode so)"
    using Finalize_result(2) [of "builderContext s5" so dout vo "c_str (cryptomatteName B mid net)"
            "materialRprId B net" "materialNodes s5"] fin by simp
  have "untagged s5" by (rule resolveTerminals_untagged [OF rt])
  then have no: "MaterialNodeSetID node w \<notin> set (trace s5)"
    unfolding untagged_def list_all_iff by fastforce
  have tags: "MaterialNodeSetID node w \<in> set calls
                \<longleftrightarrow> fst (getTerminalRprNode so) = Some node \<and> w = materialRprId B net
                    \<and> 0 \<le> sint (materialRprId B net)"
    using Finalize_tags [of node w "builderContext s5" so dout vo "c_str (cryptomatteName B mid net)"
            "materialRprId B net" "materialNodes s5"] fin by simp
  have c1: "MaterialNodeSetID node w \<in> set tr \<longleftrightarrow>
               (\<exists>out'. res = Some (GraphBased out') \<and> m_surfaceNode out' = Some node)
               \<and> w = materialRprId B net \<and> 0 \<le> sint (materialRprId B net)"
    unfolding res tr using no tags ok surf by auto
  have c2: "res \<noteq> Some (RprUsdMaterial_RprApiMtlx k)" unfolding res by simp
  from c1 c2 show ?thesis by blast
qed

lemma CreateMaterialXFromUsdShade_kind:
  "CreateMaterialXFromUsdShade B mid net = Some m \<Longrightarrow> \<exists>k. m = RprUsdMaterial_RprApiMtlx k"
  by (auto simp: CreateMaterialXFromUsdShade_def split: option.splits if_splits)

text \<open>\<open>CreateMaterial\<close> is the MaterialX material with nothing called, or the graph-based build.\<close>

lemma CreateMaterial_cases:
  assumes "CreateMaterial B mid net isVolume x n = Some (res, tr)"
  shows "(\<exists>k. res = Some (RprUsdMaterial_RprApiMtlx k) \<and> tr = [])
       \<or> buildGraphMaterial B mid net x n = Some (res, tr)"
proof (cases "if \<not> isVolume then CreateMaterialXFromUsdShade B mid net else None")
  case None
  with assms show ?thesis by (simp add: CreateMaterial_def)
next
  case (Some m)
  then have "CreateMaterialXFromUsdShade B mid net = Some m" by (simp split: if_splits)
  from CreateMaterialXFromUsdShade_kind [OF this] obtain k where k: "m = RprUsdMaterial_RprApiMtlx k" ..
  from assms Some have "res = Some m" "tr = []" by (simp_all add: CreateMaterial_def)
  with k show ?thesis by blast
qed

lemma CreateMaterial_returns:
  assumes "ranked net rank" "list_all (\<lambda>t. rank (upstreamNode (snd t)) < n) (terminals net)"
  shows "\<exists>res tr. CreateMaterial B mid net isVolume x n = Some (res, tr)"
proof -
  from resolveTerminals_returns [OF assms, of B x] obtain vo so dout s5 where
    rt: "resolveTerminals B net x n = (Some vo, Some so, Some dout, s5)" by blast
  have "\<exists>res tr. buildGraphMaterial B mid net x n = Some (res, tr)"
    unfolding buildGraphMaterial_resolved [OF rt] by (simp split: prod.splits)
  then show ?thesis by (auto simp: CreateMaterial_def split: option.splits)
qed

text \<open>The loop over the inputs, cut at any point.\<close>

lemma setNodeInputs_append:
  "setNodeInputs B net n p (xs @ ys) s
     = (case setNodeInputs B net n p xs s of
          (True, t) \<Rightarrow> setNodeInputs B net n p ys t
        | (False, t) \<Rightarrow> (False, t))"
proof (induction xs arbitrary: s)
  case Nil
  show ?case by simp
next
  case (Cons a xs)
  obtain i0 conns where a: "a = (i0, conns)" by (cases a)
  show ?case
  proof (cases conns)
    case Nil
    with a Cons.IH show ?thesis by simp
  next
    case c1: (Cons k0 ks)
    show ?thesis
    proof (cases ks)
      case Nil
      obtain r0 s1 where g: "getNodeOutput B net n k0 s = (r0, s1)"
        by (cases "getNodeOutput B net n k0 s")
      show ?thesis
      proof (cases r0)
        case None
        with a c1 Nil g show ?thesis by simp
      next
        case (Some v)
        with a c1 Nil g Cons.IH show ?thesis by simp
      qed
    next
      case (Cons k2 ks2)
      with a c1 Cons.IH show ?thesis by simp
    qed
  qed
qed

lemma resolveFrame_traceD:
  "resolveFrame a b \<Longrightarrow> \<exists>t. trace b = trace a @ t"
  unfolding resolveFrame_def by blast

text \<open>
  The first visit of a built node that returns, cut at an input with exactly one
  connection: the inputs before it were wired from the state in which the visit marked
  the node, the connection was resolved in the state they left, its value, unless empty,
  went to \<open>SetInput\<close> at once, the remaining inputs were wired from there, and the output
  was read last.
\<close>

lemma getNodeOutput_first_visit_run:
  fixes B :: "('n, 'x) Backend"
  assumes "map_of (nodes net) (upstreamNode c) = Some node"
    and "materialNodes s (upstreamNode c) = Some mn" "upstreamNode c \<notin> visited s"
    and "getNodeOutput B net (Suc fuel) c s = (Some v, s')"
    and "inputConnections node = xs @ (i, [k]) # ys"
  shows "\<exists>(t :: ('n, 'x) BuildState) r t' u mu a b d.
           setNodeInputs B net fuel (upstreamNode c) xs
             (record_step (WireInputs (upstreamNode c))
                (s\<lparr>visited := insert (upstreamNode c) (visited s)\<rparr>)) = (True, t)
         \<and> getNodeOutput B net fuel k t = (Some r, t')
         \<and> setNodeInputs B net fuel (upstreamNode c) ys
             (if r \<noteq> VtEmpty then callSetInput B (upstreamNode c) i r t' else t') = (True, u)
         \<and> materialNodes u (upstreamNode c) = Some mu
         \<and> v = GetOutput B (upstreamOutputName c) mu
         \<and> s' = record_step (GetOutputCall (upstreamNode c) (upstreamOutputName c)) u
         \<and> trace t = trace s @ WireInputs (upstreamNode c) # a
         \<and> trace t' = trace t @ b
         \<and> trace s' = trace t' @ (if r \<noteq> VtEmpty then [SetInputCall (upstreamNode c) i r] else [])
                         @ d @ [GetOutputCall (upstreamNode c) (upstreamOutputName c)]
         \<and> upstreamNode c \<in> visited s'"
proof -
  let ?p = "upstreamNode c"
  let ?out = "upstreamOutputName c"
  let ?s0 = "record_step (WireInputs ?p) (s\<lparr>visited := insert ?p (visited s)\<rparr>)"
  obtain ok u where sn: "setNodeInputs B net fuel ?p (inputConnections node) ?s0 = (ok, u)"
    by (cases "setNodeInputs B net fuel ?p (inputConnections node) ?s0")
  from assms(1-4) sn have ok: "ok" by (cases ok) simp_all
  from assms(1-4) sn ok
  have out: "callGetOutput B ?p ?out u = (Some v, s')" by simp
  obtain ok1 t where x: "setNodeInputs B net fuel ?p xs ?s0 = (ok1, t)"
    by (cases "setNodeInputs B net fuel ?p xs ?s0")
  from sn ok x have ok1: "ok1" unfolding assms(5) setNodeInputs_append by (cases ok1) simp_all
  from sn ok x ok1 have y: "setNodeInputs B net fuel ?p ((i, [k]) # ys) t = (True, u)"
    unfolding assms(5) setNodeInputs_append by simp
  obtain r0 t' where g: "getNodeOutput B net fuel k t = (r0, t')"
    by (cases "getNodeOutput B net fuel k t")
  from y g obtain r where r: "r0 = Some r" by (cases r0) simp_all
  let ?t2 = "if r \<noteq> VtEmpty then callSetInput B ?p i r t' else t'"
  from y g r have z: "setNodeInputs B net fuel ?p ys ?t2 = (True, u)" by simp
  have b0: "materialNodes ?s0 ?p \<noteq> None" using assms(2) by (simp add: record_step_def)
  from setNodeInputs_frame [of ?s0 B net fuel ?p xs] x have f1: "resolveFrame ?s0 t" by simp
  from getNodeOutput_frame [of t B net fuel k] g have f2: "resolveFrame t t'" by simp
  have bt': "materialNodes t' ?p \<noteq> None"
    by (rule resolveFrame_built [OF f2 resolveFrame_built [OF f1 b0]])
  then obtain mt where mt: "materialNodes t' ?p = Some mt" by blast
  have tr2: "trace ?t2 = trace t' @ (if r \<noteq> VtEmpty then [SetInputCall ?p i r] else [])"
    using mt by (simp add: callSetInput_def record_step_def)
  have b2: "materialNodes ?t2 ?p \<noteq> None"
    using mt by (simp add: callSetInput_def record_step_def)
  have v2: "visited ?t2 = visited t'"
    using mt by (simp add: callSetInput_def record_step_def)
  from setNodeInputs_frame [of ?t2 B net fuel ?p ys] z have f3: "resolveFrame ?t2 u" by simp
  have "materialNodes u ?p \<noteq> None" by (rule resolveFrame_built [OF f3 b2])
  then obtain mu where mu: "materialNodes u ?p = Some mu" by blast
  from out mu have v: "v = GetOutput B ?out mu"
    and s': "s' = record_step (GetOutputCall ?p ?out) u"
    by (simp_all add: callGetOutput_def)
  from resolveFrame_traceD [OF f1] obtain a where "trace t = trace ?s0 @ a" ..
  then have ta: "trace t = trace s @ WireInputs ?p # a" by (simp add: record_step_def)
  from resolveFrame_traceD [OF f2] obtain b where tb: "trace t' = trace t @ b" ..
  from resolveFrame_traceD [OF f3] obtain d where "trace u = trace ?t2 @ d" ..
  with tr2 s' have td: "trace s' = trace t' @ (if r \<noteq> VtEmpty then [SetInputCall ?p i r] else [])
                         @ d @ [GetOutputCall ?p ?out]"
    by (simp add: record_step_def)
  have "?p \<in> visited ?s0" by (simp add: record_step_def)
  with f1 f2 have "?p \<in> visited t'" unfolding resolveFrame_def by blast
  with v2 f3 have "?p \<in> visited u" unfolding resolveFrame_def by blast
  with s' have vs: "?p \<in> visited s'" by (simp add: record_step_def)
  show ?thesis
    apply (rule exI [of _ t], rule exI [of _ r], rule exI [of _ t'], rule exI [of _ u],
           rule exI [of _ mu], rule exI [of _ a], rule exI [of _ b], rule exI [of _ d])
    using x ok1 g r z mu v s' ta tb td vs by simp
qed

section \<open>Properties of the texture resolver\<close>

text \<open>
  C10. The first loop asks the image cache once per commit, in queue order, always with
  an empty tile list and a required-component count of zero, whatever the commit's
  \<open>numComponentsRequired\<close>; the only other requests are those of the third loop, which
  carry the commit's \<open>numComponentsRequired\<close>. When the first request answers with an
  image, that image goes to the callback at once.
\<close>

theorem phase1_lookup_passes_no_tiles_and_zero_components:
  "filter isGetImage (snd (snd (CommitResources E commits cache)))
     = map (\<lambda>c. GetImageCall (filepath c) (colorspace c) (wrapType c) [] 0) commits
       @ phase3Requests (uniqueTextures (phase2 E commits cache))
           (uniqueTextureIndicesPerCommit (phase2 E commits cache)) 0 commits
   \<and> (GetImage E (imageCache s) (filepath commit) (colorspace commit) (wrapType commit) [] 0
          = (Some img, c')
        \<longrightarrow> events (collectCommit E i commit s)
              = events s @ [GetImageCall (filepath commit) (colorspace commit)
                              (wrapType commit) [] 0,
                            SetTextureCallback i (Some img)])"
proof -
  have "map lookupEvent commits
          = map (\<lambda>c. GetImageCall (filepath c) (colorspace c) (wrapType c) [] 0) commits"
    by (simp add: lookupEvent_def)
  with run_getimage [of E commits cache] have first: "filter isGetImage (snd (snd (CommitResources E commits cache)))
     = map (\<lambda>c. GetImageCall (filepath c) (colorspace c) (wrapType c) [] 0) commits
       @ phase3Requests (uniqueTextures (phase2 E commits cache))
           (uniqueTextureIndicesPerCommit (phase2 E commits cache)) 0 commits"
    by simp
  have second: "GetImage E (imageCache s) (filepath commit) (colorspace commit) (wrapType commit) [] 0
          = (Some img, c')
        \<longrightarrow> events (collectCommit E i commit s)
              = events s @ [GetImageCall (filepath commit) (colorspace commit)
                              (wrapType commit) [] 0,
                            SetTextureCallback i (Some img)]"
    by (simp add: collectCommit_def emit_def)
  from first second show ?thesis by (rule conjI)
qed

theorem phase1_lookup_passes_no_tiles_and_zero_components_witness:
  "filter isGetImage
     (snd (snd (CommitResources sampleCollaborators [plainCommit, plainCommit] [''a.png''])))
     = [GetImageCall ''a.png'' ''srgb'' 0 [] 0, GetImageCall ''a.png'' ''srgb'' 0 [] 0]
   \<and> events (collectCommit sampleCollaborators 0 plainCommit (initCommitState [''a.png'']))
       = [GetImageCall ''a.png'' ''srgb'' 0 [] 0, SetTextureCallback 0 (Some 1)]"
  using phase1_lookup_passes_no_tiles_and_zero_components
          [of sampleCollaborators "[plainCommit, plainCommit]" "[''a.png'']"
              "initCommitState [''a.png'']" plainCommit 1 "[''a.png'']" 0]
  by (simp add: sample_defs phase2_def loadTextures_def)

section \<open>Properties of the graph builder\<close>

text \<open>
  C7. A network node whose registered factory does not deliver a node leaves no backend
  node at its path, and the pass goes on with the remaining nodes: a thrown node error is
  reported with the node's path and type, a thrown empty-node condition with the path,
  and a returned null pointer is skipped without any report. The context keeps whatever
  the factory did to it.
\<close>

theorem failed_factory_skips_node:
  assumes "es = xs @ (p, node) # zs"
    and "distinct (map fst es)"
    and "factoryOf B (nodeTypeId node) = Some f"
    and "f ((builderContext (createNodes B xs (initBuildState x)))\<lparr>currentNodePath := Some p\<rparr>)
           (parameters node) = (r, ctx)"
    and "failed r"
  shows "createNode B (p, node) (createNodes B xs (initBuildState x))
           = (createNodes B xs (initBuildState x))
               \<lparr>builderContext := ctx,
                trace := trace (createNodes B xs (initBuildState x)) @ failureReport p node r\<rparr>
     \<and> failureReport p node r
           = (case r of
                ThrowsNodeError what \<Rightarrow> [Error_FailedToCreate p (nodeTypeId node) what]
              | ThrowsNodeEmpty \<Rightarrow> [Warn_EmptyNode p]
              | _ \<Rightarrow> [])
     \<and> createNodes B es (initBuildState x)
           = createNodes B zs (createNode B (p, node) (createNodes B xs (initBuildState x)))
     \<and> materialNodes (createNodes B es (initBuildState x)) p = None
     \<and> materialNodes (createHoudiniNode B (createNodes B es (initBuildState x))) p = None"
proof -
  let ?S = "createNodes B xs (initBuildState x)"
  let ?F = "createNodes B es (initBuildState x)"
  have step: "createNode B (p, node) ?S
                = ?S\<lparr>builderContext := ctx, trace := trace ?S @ failureReport p node r\<rparr>"
    by (rule createNode_failed [OF assms(3,4,5)])
  have report: "failureReport p node r
           = (case r of
                ThrowsNodeError what \<Rightarrow> [Error_FailedToCreate p (nodeTypeId node) what]
              | ThrowsNodeEmpty \<Rightarrow> [Warn_EmptyNode p]
              | _ \<Rightarrow> [])"
    by (cases r) simp_all
  have cont: "?F = createNodes B zs (createNode B (p, node) ?S)"
    unfolding assms(1) by (simp add: createNodes_append)
  have pxs: "p \<notin> fst ` set xs" and pzs: "p \<notin> fst ` set zs"
    using assms(2) unfolding assms(1) by auto
  have "dom (materialNodes ?S) \<subseteq> fst ` set xs"
    using createNodes_dom [of B xs "initBuildState x"] by (simp add: initBuildState_def)
  with pxs have "p \<notin> dom (materialNodes (createNode B (p, node) ?S))"
    unfolding step by auto
  moreover have "dom (materialNodes ?F)
                   \<subseteq> fst ` set zs \<union> dom (materialNodes (createNode B (p, node) ?S))"
    unfolding cont by (rule createNodes_dom)
  ultimately have none: "materialNodes ?F p = None" using pzs by auto
  have hou: "materialNodes (createHoudiniNode B ?F) p = None"
  proof (cases "lastPart (isSurfacePart B) es")
    case None
    then have "houdiniPrincipledShaderNodePath ?F = None"
      using createNodes_accumulators [of B es "initBuildState x"]
      by (simp add: initBuildState_def)
    then show ?thesis using none by (simp add: createHoudiniNode_def)
  next
    case (Some e)
    from lastPart_Some [OF Some] have e: "e \<in> set es" "isSurfacePart B e" by simp_all
    have "fst e \<noteq> p"
    proof
      assume "fst e = p"
      moreover have "(p, node) \<in> set es" unfolding assms(1) by simp
      ultimately have "e = (p, node)"
        using e(1) distinct_fst_unique [OF assms(2), of p "snd e" node] by (cases e) simp
      with e(2) assms(3) show False by (simp add: isSurfacePart_def)
    qed
    moreover have "houdiniPrincipledShaderNodePath ?F = Some (fst e)"
      using createNodes_accumulators [of B es "initBuildState x"] Some by simp
    ultimately show ?thesis using none
      by (auto simp: createHoudiniNode_def split: option.splits prod.splits)
  qed
  from step report cont none hou show ?thesis by blast
qed

theorem failed_factory_skips_node_witness:
  "createNode sampleBackend (''/b'', mkNode ''broken'' [] [])
       (createNodes sampleBackend [(''/a'', mkNode ''const'' [] [])] (initBuildState ()))
     = (createNodes sampleBackend [(''/a'', mkNode ''const'' [] [])] (initBuildState ()))
         \<lparr>builderContext :=
            (builderContext (createNodes sampleBackend [(''/a'', mkNode ''const'' [] [])]
                               (initBuildState ())))\<lparr>currentNodePath := Some ''/b''\<rparr>,
          trace := [Error_FailedToCreate ''/b'' ''broken'' ''bad'']\<rparr>
   \<and> materialNodes
       (createHoudiniNode sampleBackend
          (createNodes sampleBackend
             [(''/a'', mkNode ''const'' [] []), (''/b'', mkNode ''broken'' [] []),
              (''/c'', mkNode ''add'' [] [])]
             (initBuildState ()))) ''/b'' = None"
  using failed_factory_skips_node
          [of "[(''/a'', mkNode ''const'' [] []), (''/b'', mkNode ''broken'' [] []),
                (''/c'', mkNode ''add'' [] [])]"
              "[(''/a'', mkNode ''const'' [] [])]" "''/b''" "mkNode ''broken'' [] []"
              "[(''/c'', mkNode ''add'' [] [])]" sampleBackend
              "\<lambda>ctx ps. (ThrowsNodeError ''bad'', ctx)" "()" "ThrowsNodeError ''bad''"
              "(builderContext (createNodes sampleBackend [(''/a'', mkNode ''const'' [] [])]
                               (initBuildState ())))\<lparr>currentNodePath := Some ''/b''\<rparr>"]
  by (simp add: graph_sample_defs)

text \<open>A factory that returns a null pointer: the node is skipped and nothing is reported.\<close>

theorem null_factory_result_is_not_logged:
  "factoryOf sampleBackend ''null'' = Some (\<lambda>ctx ps. (ReturnsNull, ctx))
   \<and> trace (createNode sampleBackend (''/n'', mkNode ''null'' [] []) (initBuildState ())) = []"
  by (simp add: graph_sample_defs)

text \<open>
  C9. The merged Houdini node is made by the block after the loop, from what the whole
  pass has accumulated: when the pass met a surface part, exactly one node is added, at
  the path of the last surface part, built from that part's parameters and those of the
  last displacement part (if any), and no node was at that path before; when the pass met
  no surface part (a displacement part alone included) nothing is added. For a surface
  part and a displacement part with only nodes outside the family between them, the pass
  ends in the same state whichever comes first, up to the context's current-node pointer,
  and in the very same material state when another node follows them.
\<close>

theorem houdini_node_made_once_after_the_pass:
  assumes "isSurfacePart B (ps, ns)" "isDisplacementPart B (pd, nd)" "list_all (noPart B) ys"
    and "distinct (map fst es)"
  shows "createHoudiniNode B (createNodes B es (initBuildState x))
     = (case lastPart (isSurfacePart B) es of
          None \<Rightarrow> createNodes B es (initBuildState x)
        | Some e \<Rightarrow>
            (createNodes B es (initBuildState x))
              \<lparr>builderContext :=
                 snd (HoudiniPrincipledNode B (builderContext (createNodes B es (initBuildState x)))
                        (parameters (snd e))
                        (map_option (\<lambda>d. parameters (snd d)) (lastPart (isDisplacementPart B) es))),
               materialNodes :=
                 (materialNodes (createNodes B es (initBuildState x)))
                   (fst e \<mapsto>
                      fst (HoudiniPrincipledNode B
                             (builderContext (createNodes B es (initBuildState x)))
                             (parameters (snd e))
                             (map_option (\<lambda>d. parameters (snd d))
                                (lastPart (isDisplacementPart B) es))))\<rparr>)
   \<and> (case lastPart (isSurfacePart B) es of
          None \<Rightarrow> True
        | Some e \<Rightarrow> materialNodes (createNodes B es (initBuildState x)) (fst e) = None)
   \<and> setCurrent None (createNodes B (xs @ (ps, ns) # ys @ (pd, nd) # zs) s)
       = setCurrent None (createNodes B (xs @ (pd, nd) # ys @ (ps, ns) # zs) s)
   \<and> (zs \<noteq> [] \<longrightarrow>
         createHoudiniNode B (createNodes B (xs @ (ps, ns) # ys @ (pd, nd) # zs) s)
           = createHoudiniNode B (createNodes B (xs @ (pd, nd) # ys @ (ps, ns) # zs) s))"
proof -
  have second: "(case lastPart (isSurfacePart B) es of
          None \<Rightarrow> True
        | Some e \<Rightarrow> materialNodes (createNodes B es (initBuildState x)) (fst e) = None)"
    using surface_part_unbuilt [OF assms(4), of B _ x] by (simp split: option.splits)
  have fourth: "zs \<noteq> [] \<longrightarrow>
         createHoudiniNode B (createNodes B (xs @ (ps, ns) # ys @ (pd, nd) # zs) s)
           = createHoudiniNode B (createNodes B (xs @ (pd, nd) # ys @ (ps, ns) # zs) s)"
    using swap_parts(2) [OF assms(1-3), of zs xs s] by simp
  show ?thesis
    using createHoudiniNode_lastPart [of B es x] second
      swap_parts(1) [OF assms(1-3), of xs zs s] fourth
    by (intro conjI)
qed

theorem houdini_node_made_once_after_the_pass_witness:
  "materialNodes (createHoudiniNode sampleBackend
       (createNodes sampleBackend [houdiniSurface, constNode, houdiniDisplacement]
          (initBuildState ()))) ''/hs''
     = Some (SampleNode 9 [(''basecolor'', VtOther 1), (''height'', VtOther 2)])
   \<and> materialNodes (createNodes sampleBackend [houdiniSurface, constNode, houdiniDisplacement]
          (initBuildState ())) ''/hs'' = None
   \<and> setCurrent None (createNodes sampleBackend
         [houdiniSurface, constNode, houdiniDisplacement] (initBuildState ()))
     = setCurrent None (createNodes sampleBackend
         [houdiniDisplacement, constNode, houdiniSurface] (initBuildState ()))
   \<and> createHoudiniNode sampleBackend (createNodes sampleBackend
         [houdiniSurface, constNode, houdiniDisplacement, constNode] (initBuildState ()))
     = createHoudiniNode sampleBackend (createNodes sampleBackend
         [houdiniDisplacement, constNode, houdiniSurface, constNode] (initBuildState ()))"
proof -
  have h: "isSurfacePart sampleBackend (''/hs'', snd houdiniSurface)"
    "isDisplacementPart sampleBackend (''/hd'', snd houdiniDisplacement)"
    "list_all (noPart sampleBackend) [constNode]"
    "distinct (map fst [houdiniSurface, constNode, houdiniDisplacement])"
    by (simp_all add: graph_sample_defs houdiniSurface_def houdiniDisplacement_def constNode_def)
  have l: "lastPart (isSurfacePart sampleBackend) [houdiniSurface, constNode, houdiniDisplacement]
             = Some houdiniSurface"
    "lastPart (isDisplacementPart sampleBackend) [houdiniSurface, constNode, houdiniDisplacement]
             = Some houdiniDisplacement"
    by (simp_all add: lastPart_def graph_sample_defs houdiniSurface_def houdiniDisplacement_def
          constNode_def)
  have e: "(''/hs'', snd houdiniSurface) = houdiniSurface"
    "(''/hd'', snd houdiniDisplacement) = houdiniDisplacement"
    by (simp_all add: houdiniSurface_def houdiniDisplacement_def)
  note t = houdini_node_made_once_after_the_pass [OF h, of "()" "[]" _ "initBuildState ()"]
  from t [of "[]"] t [of "[constNode]"] show ?thesis
    unfolding l e
    by (simp add: sampleBackend_def houdiniSurface_def houdiniDisplacement_def mkNode_def)
qed

text \<open>
  A network whose only Houdini node is the displacement part: the predicate recognises
  the family, and no backend node is made.
\<close>

theorem displacement_part_alone_makes_no_node:
  "IsHoudiniPrincipledShaderHydraNode sampleBackend (fst houdiniDisplacement) = Some False
   \<and> factoryOf sampleBackend (nodeTypeId (snd houdiniDisplacement)) = None
   \<and> materialNodes (createHoudiniNode sampleBackend
        (createNodes sampleBackend [houdiniDisplacement] (initBuildState ()))) = Map.empty"
  by (simp add: graph_sample_defs houdiniDisplacement_def createHoudiniNode_def)

text \<open>
  C1. Whatever the network (diamonds and cycles included) and however far the recursion
  gets, output resolution starts the input wiring of a built node at most once: the
  \<open>visited\<close> set holds every wired path, and a whole build wires no path twice. A later
  visit of a built node only reads the requested output and changes nothing. A first
  visit that returns goes, for every input \<open>(i, [k])\<close> with exactly one connection, through
  these states of its own run: the inputs before it are wired from the state in which the
  visit has marked the node; \<open>k\<close> is resolved in the state \<open>t\<close> they leave, to a value \<open>r\<close>
  and a state \<open>t'\<close>; \<open>SetInput i r\<close> is the next call when \<open>r\<close> is not empty, and no call
  is made for an empty \<open>r\<close>; the inputs after it are wired from there; reading the output
  from the node as it is then is the last step.
\<close>

theorem inputs_wired_at_most_once:
  fixes B :: "('n, 'x) Backend"
  assumes "wiredOnce s"
  shows "wiredOnce (snd (getNodeOutput B net fuel c s))
     \<and> (buildGraphMaterial B mid net x fuel = Some (res, tr) \<longrightarrow> distinct (wiredPaths tr))
     \<and> (map_of (nodes net) (upstreamNode cv) = Some nodev
          \<and> materialNodes sv (upstreamNode cv) = Some mn \<and> upstreamNode cv \<in> visited sv
        \<longrightarrow> getNodeOutput B net (Suc fuel) cv sv
              = (Some (GetOutput B (upstreamOutputName cv) mn),
                 record_step (GetOutputCall (upstreamNode cv) (upstreamOutputName cv)) sv))
     \<and> (map_of (nodes net) (upstreamNode cf) = Some nodef
          \<and> materialNodes sf (upstreamNode cf) = Some mf \<and> upstreamNode cf \<notin> visited sf
          \<and> getNodeOutput B net (Suc fuel) cf sf = (Some v, sf')
          \<and> inputConnections nodef = xs @ (i, [k]) # ys
        \<longrightarrow> (\<exists>(t :: ('n, 'x) BuildState) r t' u mu a b d.
               setNodeInputs B net fuel (upstreamNode cf) xs
                 (record_step (WireInputs (upstreamNode cf))
                    (sf\<lparr>visited := insert (upstreamNode cf) (visited sf)\<rparr>)) = (True, t)
             \<and> getNodeOutput B net fuel k t = (Some r, t')
             \<and> setNodeInputs B net fuel (upstreamNode cf) ys
                 (if r \<noteq> VtEmpty then callSetInput B (upstreamNode cf) i r t' else t') = (True, u)
             \<and> materialNodes u (upstreamNode cf) = Some mu
             \<and> v = GetOutput B (upstreamOutputName cf) mu
             \<and> sf' = record_step (GetOutputCall (upstreamNode cf) (upstreamOutputName cf)) u
             \<and> trace t = trace sf @ WireInputs (upstreamNode cf) # a
             \<and> trace t' = trace t @ b
             \<and> trace sf' = trace t'
                   @ (if r \<noteq> VtEmpty then [SetInputCall (upstreamNode cf) i r] else [])
                   @ d @ [GetOutputCall (upstreamNode cf) (upstreamOutputName cf)]
             \<and> upstreamNode cf \<in> visited sf'))"
proof (intro conjI impI)
  show "wiredOnce (snd (getNodeOutput B net fuel c s))"
    by (rule getNodeOutput_wiredOnce [OF assms])
next
  assume "buildGraphMaterial B mid net x fuel = Some (res, tr)"
  then show "distinct (wiredPaths tr)" by (rule buildGraphMaterial_wiredOnce)
next
  assume "map_of (nodes net) (upstreamNode cv) = Some nodev
          \<and> materialNodes sv (upstreamNode cv) = Some mn \<and> upstreamNode cv \<in> visited sv"
  then show "getNodeOutput B net (Suc fuel) cv sv
              = (Some (GetOutput B (upstreamOutputName cv) mn),
                 record_step (GetOutputCall (upstreamNode cv) (upstreamOutputName cv)) sv)"
    using getNodeOutput_visited [of net cv nodev sv mn B fuel] by simp
next
  assume a: "map_of (nodes net) (upstreamNode cf) = Some nodef
          \<and> materialNodes sf (upstreamNode cf) = Some mf \<and> upstreamNode cf \<notin> visited sf
          \<and> getNodeOutput B net (Suc fuel) cf sf = (Some v, sf')
          \<and> inputConnections nodef = xs @ (i, [k]) # ys"
  then have a1: "map_of (nodes net) (upstreamNode cf) = Some nodef"
    and a2: "materialNodes sf (upstreamNode cf) = Some mf"
    and a3: "upstreamNode cf \<notin> visited sf"
    and a4: "getNodeOutput B net (Suc fuel) cf sf = (Some v, sf')"
    and a5: "inputConnections nodef = xs @ (i, [k]) # ys" by simp_all
  show "\<exists>(t :: ('n, 'x) BuildState) r t' u mu a b d.
               setNodeInputs B net fuel (upstreamNode cf) xs
                 (record_step (WireInputs (upstreamNode cf))
                    (sf\<lparr>visited := insert (upstreamNode cf) (visited sf)\<rparr>)) = (True, t)
             \<and> getNodeOutput B net fuel k t = (Some r, t')
             \<and> setNodeInputs B net fuel (upstreamNode cf) ys
                 (if r \<noteq> VtEmpty then callSetInput B (upstreamNode cf) i r t' else t') = (True, u)
             \<and> materialNodes u (upstreamNode cf) = Some mu
             \<and> v = GetOutput B (upstreamOutputName cf) mu
             \<and> sf' = record_step (GetOutputCall (upstreamNode cf) (upstreamOutputName cf)) u
             \<and> trace t = trace sf @ WireInputs (upstreamNode cf) # a
             \<and> trace t' = trace t @ b
             \<and> trace sf' = trace t'
                   @ (if r \<noteq> VtEmpty then [SetInputCall (upstreamNode cf) i r] else [])
                   @ d @ [GetOutputCall (upstreamNode cf) (upstreamOutputName cf)]
             \<and> upstreamNode cf \<in> visited sf'"
    by (rule getNodeOutput_first_visit_run [OF a1 a2 a3 a4 a5])
qed

theorem inputs_wired_at_most_once_witness:
  "wiredOnce (snd (getNodeOutput sampleBackend diamond (Suc (Suc (Suc 0))) (conn ''/d'' ''out'')
                     (built diamond)))
   \<and> distinct (wiredPaths
        [WireInputs ''/d'', WireInputs ''/b'', WireInputs ''/a'', GetOutputCall ''/a'' ''out'',
         SetInputCall ''/b'' ''in'' (VtMaterialNode (Some 1)), GetOutputCall ''/b'' ''out'',
         SetInputCall ''/d'' ''x'' (VtMaterialNode (Some 2)), WireInputs ''/c'',
         GetOutputCall ''/a'' ''out'', SetInputCall ''/c'' ''in'' (VtMaterialNode (Some 1)),
         GetOutputCall ''/c'' ''out'', SetInputCall ''/d'' ''y'' (VtMaterialNode (Some 2)),
         GetOutputCall ''/d'' ''out'', SetName 2 ''/mat''])
   \<and> getNodeOutput sampleBackend diamond (Suc (Suc (Suc (Suc 0)))) (conn ''/a'' ''out'')
        ((built diamond)\<lparr>visited := {''/a''}\<rparr>)
     = (Some (GetOutput sampleBackend (upstreamOutputName (conn ''/a'' ''out'')) (SampleNode 1 [])),
        record_step (GetOutputCall (upstreamNode (conn ''/a'' ''out''))
                       (upstreamOutputName (conn ''/a'' ''out'')))
          ((built diamond)\<lparr>visited := {''/a''}\<rparr>))
   \<and> (\<exists>(t :: (SampleNode, unit) BuildState) r t' u mu a b d.
         setNodeInputs sampleBackend diamond (Suc (Suc (Suc 0))) (upstreamNode (conn ''/d'' ''out''))
           [(''x'', [conn ''/b'' ''out''])]
           (record_step (WireInputs (upstreamNode (conn ''/d'' ''out'')))
              ((built diamond)\<lparr>visited := insert (upstreamNode (conn ''/d'' ''out''))
                                             (visited (built diamond))\<rparr>)) = (True, t)
       \<and> getNodeOutput sampleBackend diamond (Suc (Suc (Suc 0))) (conn ''/c'' ''out'') t
           = (Some r, t')
       \<and> setNodeInputs sampleBackend diamond (Suc (Suc (Suc 0))) (upstreamNode (conn ''/d'' ''out'')) []
           (if r \<noteq> VtEmpty
            then callSetInput sampleBackend (upstreamNode (conn ''/d'' ''out'')) ''y'' r t'
            else t') = (True, u)
       \<and> materialNodes u (upstreamNode (conn ''/d'' ''out'')) = Some mu
       \<and> VtMaterialNode (Some 2)
           = GetOutput sampleBackend (upstreamOutputName (conn ''/d'' ''out'')) mu
       \<and> snd (getNodeOutput sampleBackend diamond (Suc (Suc (Suc (Suc 0))))
                 (conn ''/d'' ''out'') (built diamond))
           = record_step (GetOutputCall (upstreamNode (conn ''/d'' ''out''))
                            (upstreamOutputName (conn ''/d'' ''out''))) u
       \<and> trace t = trace (built diamond) @ WireInputs (upstreamNode (conn ''/d'' ''out'')) # a
       \<and> trace t' = trace t @ b
       \<and> trace (snd (getNodeOutput sampleBackend diamond (Suc (Suc (Suc (Suc 0))))
                        (conn ''/d'' ''out'') (built diamond)))
           = trace t'
             @ (if r \<noteq> VtEmpty
                then [SetInputCall (upstreamNode (conn ''/d'' ''out'')) ''y'' r] else [])
             @ d @ [GetOutputCall (upstreamNode (conn ''/d'' ''out''))
                      (upstreamOutputName (conn ''/d'' ''out''))]
       \<and> upstreamNode (conn ''/d'' ''out'')
           \<in> visited (snd (getNodeOutput sampleBackend diamond (Suc (Suc (Suc (Suc 0))))
                             (conn ''/d'' ''out'') (built diamond))))"
proof -
  let ?n = "Suc (Suc (Suc 0))"
  let ?tr = "[WireInputs ''/d'', WireInputs ''/b'', WireInputs ''/a'', GetOutputCall ''/a'' ''out'',
         SetInputCall ''/b'' ''in'' (VtMaterialNode (Some 1)), GetOutputCall ''/b'' ''out'',
         SetInputCall ''/d'' ''x'' (VtMaterialNode (Some 2)), WireInputs ''/c'',
         GetOutputCall ''/a'' ''out'', SetInputCall ''/c'' ''in'' (VtMaterialNode (Some 1)),
         GetOutputCall ''/c'' ''out'', SetInputCall ''/d'' ''y'' (VtMaterialNode (Some 2)),
         GetOutputCall ''/d'' ''out'', SetName 2 ''/mat'']"
  let ?nd = "mkNode ''add'' [] [(''x'', [conn ''/b'' ''out'']), (''y'', [conn ''/c'' ''out''])]"
  have h0: "wiredOnce (built diamond)"
    by (simp add: resolve_sample_defs wiredOnce_def)
  have h1: "\<exists>res. buildGraphMaterial sampleBackend ''/mat'' diamond () ?n = Some (res, ?tr)"
    by (simp add: buildGraphMaterial_def getTerminalOutput_def Finalize_def
          getTerminalRprNode_def cryptomatteName_def c_str_def materialRprId_def
          surfaceNodeParameters_def resolve_sample_defs)
  then obtain res where
    h1': "buildGraphMaterial sampleBackend ''/mat'' diamond () ?n = Some (res, ?tr)" ..
  have h2: "map_of (nodes diamond) (upstreamNode (conn ''/a'' ''out'')) = Some (mkNode ''const'' [] [])
          \<and> materialNodes ((built diamond)\<lparr>visited := {''/a''}\<rparr>) (upstreamNode (conn ''/a'' ''out''))
              = Some (SampleNode 1 [])
          \<and> upstreamNode (conn ''/a'' ''out'') \<in> visited ((built diamond)\<lparr>visited := {''/a''}\<rparr>)"
    by (simp add: resolve_sample_defs)
  let ?sf' = "snd (getNodeOutput sampleBackend diamond (Suc ?n) (conn ''/d'' ''out'') (built diamond))"
  have h3: "map_of (nodes diamond) (upstreamNode (conn ''/d'' ''out'')) = Some ?nd
          \<and> materialNodes (built diamond) (upstreamNode (conn ''/d'' ''out'')) = Some (SampleNode 2 [])
          \<and> upstreamNode (conn ''/d'' ''out'') \<notin> visited (built diamond)
          \<and> getNodeOutput sampleBackend diamond (Suc ?n) (conn ''/d'' ''out'') (built diamond)
              = (Some (VtMaterialNode (Some 2)), ?sf')
          \<and> inputConnections ?nd
              = [(''x'', [conn ''/b'' ''out''])] @ (''y'', [conn ''/c'' ''out'']) # []"
    by (simp add: resolve_sample_defs prod_eq_iff)
  from inputs_wired_at_most_once [OF h0, of sampleBackend diamond ?n "conn ''/d'' ''out''"
      "''/mat''" "()" res ?tr "conn ''/a'' ''out''" "mkNode ''const'' [] []"
      "(built diamond)\<lparr>visited := {''/a''}\<rparr>" "SampleNode 1 []"
      "conn ''/d'' ''out''" ?nd
      "built diamond" "SampleNode 2 []" "VtMaterialNode (Some 2)" ?sf'
      "[(''x'', [conn ''/b'' ''out''])]" "''y''" "conn ''/c'' ''out''" "[]"] h1' h2 h3
  show ?thesis by blast
qed

text \<open>
  The built node \<open>/b\<close> has one input with exactly one connection; the connection resolves
  to the empty value, and the first visit of \<open>/b\<close> returns its output without any call of
  \<open>SetInput\<close>.
\<close>

theorem empty_resolved_input_is_not_bound:
  "(''in'', [conn ''/u'' ''out''])
      \<in> set (inputConnections (mkNode ''add'' [] [(''in'', [conn ''/u'' ''out''])]))
   \<and> map_of (nodes emptyInput) ''/b'' = Some (mkNode ''add'' [] [(''in'', [conn ''/u'' ''out''])])
   \<and> fst (getNodeOutput sampleBackend emptyInput (Suc (Suc (Suc 0))) (conn ''/b'' ''out'')
             (built emptyInput)) = Some (VtMaterialNode (Some 2))
   \<and> trace (snd (getNodeOutput sampleBackend emptyInput (Suc (Suc (Suc 0))) (conn ''/b'' ''out'')
                    (built emptyInput)))
       = [Warn_UnknownNodeType ''unknown'', WireInputs ''/b'', GetOutputCall ''/b'' ''out'']
   \<and> materialNodes (snd (getNodeOutput sampleBackend emptyInput (Suc (Suc (Suc 0)))
                            (conn ''/b'' ''out'') (built emptyInput))) ''/b''
       = Some (SampleNode 2 [])"
  by (simp add: resolve_sample_defs)





text \<open>
  C8. Whenever \<open>CreateMaterial\<close> returns, for any network, the call that tags a node with an
  identifier is made exactly when the material is the graph-based one, its surface node is
  that node, and the identifier read from the parameters of the surface terminal's node is
  non-negative; the tag is that identifier. The identifier is the parameter's value when
  the parameter holds an integer; it is -1, and nothing is tagged, when the parameter is
  absent, when it holds a value of another type, and when the surface terminal or its node
  is missing. A material made by the MaterialX path comes with no call at all, so its
  surface node is never tagged. In a ranked network with fuel above the rank of every
  terminal's node \<open>CreateMaterial\<close> returns.
\<close>

theorem surface_node_tagged_with_nonnegative_identifier:
  fixes B :: "('n, 'x) Backend"
  shows
    "(ranked net rank \<and> list_all (\<lambda>t. rank (upstreamNode (snd t)) < fuel) (terminals net)
        \<longrightarrow> (\<exists>r t. CreateMaterial B mid net isVolume x fuel = Some (r, t)))
   \<and> (CreateMaterial B mid net isVolume x fuel = Some (res, tr) \<longrightarrow>
        (MaterialNodeSetID node w \<in> set tr \<longleftrightarrow>
            (\<exists>out. res = Some (GraphBased out) \<and> m_surfaceNode out = Some node)
            \<and> w = materialRprId B net \<and> 0 \<le> sint (materialRprId B net))
      \<and> (res = Some (RprUsdMaterial_RprApiMtlx k) \<longrightarrow> tr = [])
      \<and> (surfaceNodeParameters B net = Some ps \<and> map_of ps (idToken B) = Some (VtInt v)
           \<longrightarrow> materialRprId B net = v)
      \<and> (surfaceNodeParameters B net = Some ps \<and> map_of ps (idToken B) = None
           \<longrightarrow> materialRprId B net = - 1 \<and> MaterialNodeSetID node w \<notin> set tr)
      \<and> (surfaceNodeParameters B net = Some ps \<and> map_of ps (idToken B) = Some val
           \<and> (\<forall>u. val \<noteq> VtInt u)
           \<longrightarrow> materialRprId B net = - 1 \<and> MaterialNodeSetID node w \<notin> set tr)
      \<and> (surfaceNodeParameters B net = None
           \<longrightarrow> materialRprId B net = - 1 \<and> MaterialNodeSetID node w \<notin> set tr))"
proof (intro conjI impI)
  assume "ranked net rank \<and> list_all (\<lambda>t. rank (upstreamNode (snd t)) < fuel) (terminals net)"
  then show "\<exists>r t. CreateMaterial B mid net isVolume x fuel = Some (r, t)"
    using CreateMaterial_returns [of net rank fuel B mid isVolume x] by simp
next
  assume cm: "CreateMaterial B mid net isVolume x fuel = Some (res, tr)"
  show iff: "MaterialNodeSetID node w \<in> set tr \<longleftrightarrow>
            (\<exists>out. res = Some (GraphBased out) \<and> m_surfaceNode out = Some node)
            \<and> w = materialRprId B net \<and> 0 \<le> sint (materialRprId B net)"
    using CreateMaterial_cases [OF cm]
  proof
    assume "\<exists>k. res = Some (RprUsdMaterial_RprApiMtlx k) \<and> tr = []"
    then show ?thesis by auto
  next
    assume "buildGraphMaterial B mid net x fuel = Some (res, tr)"
    from buildGraphMaterial_tags [OF this, of node w] show ?thesis by blast
  qed
  have neg: "\<not> 0 \<le> sint (- 1 :: 32 word)" by simp
  {
    assume "surfaceNodeParameters B net = Some ps \<and> map_of ps (idToken B) = None"
    then have m: "materialRprId B net = - 1" by (simp add: materialRprId_def)
    with iff neg show "materialRprId B net = - 1" "MaterialNodeSetID node w \<notin> set tr"
      by simp_all
  }
  {
    assume a: "surfaceNodeParameters B net = Some ps \<and> map_of ps (idToken B) = Some val
           \<and> (\<forall>u. val \<noteq> VtInt u)"
    then have m: "materialRprId B net = - 1"
      by (cases val) (simp_all add: materialRprId_def)
    with iff neg show "materialRprId B net = - 1" "MaterialNodeSetID node w \<notin> set tr"
      by simp_all
  }
  {
    assume "surfaceNodeParameters B net = None"
    then have m: "materialRprId B net = - 1" by (simp add: materialRprId_def)
    with iff neg show "materialRprId B net = - 1" "MaterialNodeSetID node w \<notin> set tr"
      by simp_all
  }
next
  assume cm: "CreateMaterial B mid net isVolume x fuel = Some (res, tr)"
    and m: "res = Some (RprUsdMaterial_RprApiMtlx k)"
  from CreateMaterial_cases [OF cm] show "tr = []"
  proof
    assume "\<exists>k. res = Some (RprUsdMaterial_RprApiMtlx k) \<and> tr = []"
    then show ?thesis by simp
  next
    assume "buildGraphMaterial B mid net x fuel = Some (res, tr)"
    from buildGraphMaterial_tags [OF this, of node w k] m show ?thesis by simp
  qed
next
  assume "surfaceNodeParameters B net = Some ps \<and> map_of ps (idToken B) = Some (VtInt v)"
  then show "materialRprId B net = v" by (simp add: materialRprId_def)
qed

theorem surface_node_tagged_with_nonnegative_identifier_witness:
  "(\<exists>res tr. CreateMaterial sampleBackend ''/mat'' (taggedNetwork 7) False () (Suc 0)
                = Some (res, tr)
       \<and> MaterialNodeSetID 1 7 \<in> set tr
       \<and> materialRprId sampleBackend (taggedNetwork 7) = 7)
   \<and> (\<exists>res tr. CreateMaterial sampleBackend ''/mat'' stringIdNetwork False () (Suc 0)
                = Some (res, tr)
       \<and> materialRprId sampleBackend stringIdNetwork = - 1
       \<and> MaterialNodeSetID 1 7 \<notin> set tr)"
proof -
  have e: "\<exists>out tr. CreateMaterial sampleBackend ''/mat'' (taggedNetwork 7) False () (Suc 0)
                      = Some (Some (GraphBased out), tr) \<and> m_surfaceNode out = Some 1"
    by (simp add: build_sample_defs)
  then obtain out tr where
    cm: "CreateMaterial sampleBackend ''/mat'' (taggedNetwork 7) False () (Suc 0)
           = Some (Some (GraphBased out), tr)"
    and sn: "m_surfaceNode out = Some 1" by blast
  have p: "surfaceNodeParameters sampleBackend (taggedNetwork 7) = Some [(''id'', VtInt 7)]
           \<and> map_of [(''id'', VtInt 7)] (idToken sampleBackend) = Some (VtInt 7)"
    by (simp add: build_sample_defs)
  have pos: "0 \<le> sint (7 :: 32 word)" by simp
  note t1 = surface_node_tagged_with_nonnegative_identifier
         [of "taggedNetwork 7" "\<lambda>p. 0" "Suc 0" sampleBackend "''/mat''" False "()"
             "Some (GraphBased out)" tr 1 7 0 "[(''id'', VtInt 7)]" 7 "VtInt 7",
          THEN conjunct2, THEN mp, OF cm]
  from t1 [THEN conjunct2, THEN conjunct2, THEN conjunct1, THEN mp, OF p]
  have id7: "materialRprId sampleBackend (taggedNetwork 7) = 7" .
  have rhs: "(\<exists>out'. Some (GraphBased out) = Some (GraphBased out') \<and> m_surfaceNode out' = Some 1)
            \<and> (7 :: 32 word) = materialRprId sampleBackend (taggedNetwork 7)
            \<and> 0 \<le> sint (materialRprId sampleBackend (taggedNetwork 7))"
    using sn pos unfolding id7 by simp
  from t1 [THEN conjunct1, THEN iffD2, OF rhs]
  have tag: "MaterialNodeSetID 1 7 \<in> set tr" .
  have first: "\<exists>res tr. CreateMaterial sampleBackend ''/mat'' (taggedNetwork 7) False () (Suc 0)
                = Some (res, tr)
       \<and> MaterialNodeSetID 1 7 \<in> set tr
       \<and> materialRprId sampleBackend (taggedNetwork 7) = 7"
    using cm tag id7 by (intro exI conjI)
  have r2: "ranked stringIdNetwork (\<lambda>p. 0)
           \<and> list_all (\<lambda>t. (\<lambda>p. 0) (upstreamNode (snd t)) < Suc 0) (terminals stringIdNetwork)"
    by (simp add: build_sample_defs stringIdNetwork_def)
  from surface_node_tagged_with_nonnegative_identifier
         [of stringIdNetwork "\<lambda>p. 0" "Suc 0" sampleBackend "''/mat''" False "()",
          THEN conjunct1, THEN mp, OF r2]
  obtain res2 tr2 where
    cm2: "CreateMaterial sampleBackend ''/mat'' stringIdNetwork False () (Suc 0) = Some (res2, tr2)"
    by (elim exE)
  have p2: "surfaceNodeParameters sampleBackend stringIdNetwork = Some [(''id'', VtString ''7'')]
           \<and> map_of [(''id'', VtString ''7'')] (idToken sampleBackend) = Some (VtString ''7'')
           \<and> (\<forall>u. VtString ''7'' \<noteq> VtInt u)"
    by (simp add: build_sample_defs stringIdNetwork_def)
  note t2 = surface_node_tagged_with_nonnegative_identifier
         [of stringIdNetwork "\<lambda>p. 0" "Suc 0" sampleBackend "''/mat''" False "()"
             res2 tr2 1 7 0 "[(''id'', VtString ''7'')]" 7 "VtString ''7''",
          THEN conjunct2, THEN mp, OF cm2]
  from t2 [THEN conjunct2, THEN conjunct2, THEN conjunct2, THEN conjunct2, THEN conjunct1,
           THEN mp, OF p2]
  have n2: "materialRprId sampleBackend stringIdNetwork = - 1
       \<and> MaterialNodeSetID 1 7 \<notin> set tr2" .
  have second: "\<exists>res tr. CreateMaterial sampleBackend ''/mat'' stringIdNetwork False () (Suc 0)
                = Some (res, tr)
       \<and> materialRprId sampleBackend stringIdNetwork = - 1
       \<and> MaterialNodeSetID 1 7 \<notin> set tr"
    using cm2 n2 [THEN conjunct1] n2 [THEN conjunct2] by (intro exI conjI)
  from first second show ?thesis by (rule conjI)
qed

text \<open>
  The surface terminal's node carries the integer identifier -5 and its backend node
  exists (it becomes the material's surface node): the build names the node and does not
  tag it.
\<close>

theorem negative_identifier_is_not_tagged:
  "surfaceNodeParameters sampleBackend (taggedNetwork (- 5)) = Some [(''id'', VtInt (- 5))]
   \<and> map_option snd (buildGraphMaterial sampleBackend ''/mat'' (taggedNetwork (- 5)) () (Suc 0))
       = Some [WireInputs ''/s'', GetOutputCall ''/s'' ''out'', SetName 1 ''/mat'']
   \<and> (\<exists>out. map_option fst
               (buildGraphMaterial sampleBackend ''/mat'' (taggedNetwork (- 5)) () (Suc 0))
              = Some (Some (GraphBased out))
            \<and> m_surfaceNode out = Some 1)
   \<and> CreateMaterial sampleBackend ''/mat'' (taggedNetwork (- 5)) False () (Suc 0)
       = buildGraphMaterial sampleBackend ''/mat'' (taggedNetwork (- 5)) () (Suc 0)"
proof -
  have a: "surfaceNodeParameters sampleBackend (taggedNetwork (- 5)) = Some [(''id'', VtInt (- 5))]
   \<and> map_option snd (buildGraphMaterial sampleBackend ''/mat'' (taggedNetwork (- 5)) () (Suc 0))
       = Some [WireInputs ''/s'', GetOutputCall ''/s'' ''out'', SetName 1 ''/mat'']
   \<and> (\<exists>out. map_option fst
               (buildGraphMaterial sampleBackend ''/mat'' (taggedNetwork (- 5)) () (Suc 0))
              = Some (Some (GraphBased out))
            \<and> m_surfaceNode out = Some 1)"
    by (simp add: build_sample_defs)
  have b: "CreateMaterial sampleBackend ''/mat'' (taggedNetwork (- 5)) False () (Suc 0)
       = buildGraphMaterial sampleBackend ''/mat'' (taggedNetwork (- 5)) () (Suc 0)"
    by (simp add: CreateMaterial_def CreateMaterialXFromUsdShade_def taggedNetwork_def
          sampleBackend_def mkNode_def conn_def)
  from a b show ?thesis by (simp only: simp_thms)
qed

text \<open>
  The surface terminal's node carries the integer identifier 7 and the MaterialX path
  makes the material, whose surface node is the retained node 5: no call is made, the
  node is not tagged.
\<close>

lemma mtlx_surface_node_is_not_tagged:
  "surfaceNodeParameters sampleBackend mtlxTagged = Some [(''id'', VtInt 7)]
   \<and> CreateMaterial sampleBackend ''/mat'' mtlxTagged False () (Suc 0)
       = Some (Some (RprUsdMaterial_RprApiMtlx 5), [])"
  by (simp add: build_sample_defs mtlxTagged_def)

text \<open>
  C2. A connection whose upstream node is in the network and has no built backend node is
  passed through: it resolves to the empty value when the node has no input, or when its
  first input has no connection; to the resolution of the connection of its first input
  when that input has exactly one connection; and to the empty value, with the report of
  connected array elements, when the first input has more than one connection. So when
  the first input of the unbuilt node \<open>b\<close> has the single connection \<open>c\<close>, every terminal
  resolves, from the same built nodes, to the same value and the same state in the network
  and in the network without \<open>b\<close>, where every connection to \<open>b\<close> is replaced by \<open>c\<close>: what
  one returns the other returns (the network needs fuel for the steps through \<open>b\<close>), and in
  a ranked network with fuel above the rank of every terminal's node both return.
\<close>

theorem unbuilt_node_passes_its_single_input_through:
  fixes B :: "('n, 'x) Backend"
  assumes "map_of (nodes net) b = Some nb" and "materialNodes s b = None"
  shows
    "(upstreamNode k = b \<longrightarrow>
        getNodeOutput B net (Suc n) k s
          = (case inputConnections nb of
               [] \<Rightarrow> (Some VtEmpty, s)
             | (inputId, []) # rest \<Rightarrow> (Some VtEmpty, s)
             | (inputId, [connection]) # rest \<Rightarrow> getNodeOutput B net n connection s
             | (inputId, c1 # c2 # cs) # rest \<Rightarrow>
                 (Some VtEmpty, record_step Error_ConnectedArrayElements s)))
   \<and> (inputConnections nb = (ib, [c]) # others \<and> upstreamNode c \<noteq> b \<longrightarrow>
        (getTerminalOutput B net m t s = (Some v, s')
           \<longrightarrow> getTerminalOutput B (removeNode b c net) m t s = (Some v, s'))
      \<and> (getTerminalOutput B (removeNode b c net) m t s = (Some v, s')
           \<longrightarrow> getTerminalOutput B net (Suc (2 * m)) t s = (Some v, s'))
      \<and> (ranked net rank \<and> list_all (\<lambda>t. rank (upstreamNode (snd t)) < m) (terminals net)
           \<longrightarrow> (\<exists>r (w :: ('n, 'x) BuildState).
                  getTerminalOutput B net m t s = (Some r, w)
                \<and> getTerminalOutput B (removeNode b c net) m t s = (Some r, w))))"
proof (intro conjI impI)
  assume "upstreamNode k = b"
  with assms have "map_of (nodes net) (upstreamNode k) = Some nb"
    and "materialNodes s (upstreamNode k) = None" by simp_all
  then show "getNodeOutput B net (Suc n) k s
          = (case inputConnections nb of
               [] \<Rightarrow> (Some VtEmpty, s)
             | (inputId, []) # rest \<Rightarrow> (Some VtEmpty, s)
             | (inputId, [connection]) # rest \<Rightarrow> getNodeOutput B net n connection s
             | (inputId, c1 # c2 # cs) # rest \<Rightarrow>
                 (Some VtEmpty, record_step Error_ConnectedArrayElements s))"
    by (rule getNodeOutput_unbuilt)
next
  assume a: "inputConnections nb = (ib, [c]) # others \<and> upstreamNode c \<noteq> b"
    and r: "getTerminalOutput B net m t s = (Some v, s')"
  from a have a1: "inputConnections nb = (ib, [c]) # others" and a2: "upstreamNode c \<noteq> b"
    by simp_all
  show "getTerminalOutput B (removeNode b c net) m t s = (Some v, s')"
    by (rule removeNode_terminal_keeps [OF assms(1) a1 a2 assms(2) r])
next
  assume a: "inputConnections nb = (ib, [c]) # others \<and> upstreamNode c \<noteq> b"
    and r: "getTerminalOutput B (removeNode b c net) m t s = (Some v, s')"
  from a have a1: "inputConnections nb = (ib, [c]) # others" and a2: "upstreamNode c \<noteq> b"
    by simp_all
  show "getTerminalOutput B net (Suc (2 * m)) t s = (Some v, s')"
    by (rule removeNode_terminal_reflects [OF assms(1) a1 a2 assms(2) r])
next
  assume a: "inputConnections nb = (ib, [c]) # others \<and> upstreamNode c \<noteq> b"
    and rk: "ranked net rank \<and> list_all (\<lambda>t. rank (upstreamNode (snd t)) < m) (terminals net)"
  from a have a1: "inputConnections nb = (ib, [c]) # others" and a2: "upstreamNode c \<noteq> b"
    by simp_all
  from rk have "fst (getTerminalOutput B net m t s) \<noteq> None"
    using getTerminalOutput_returns [of net rank m B t s] by simp
  then obtain r w where r: "getTerminalOutput B net m t s = (Some r, w)"
    by (cases "getTerminalOutput B net m t s") auto
  from removeNode_terminal_keeps [OF assms(1) a1 a2 assms(2) r]
  have "getTerminalOutput B (removeNode b c net) m t s = (Some r, w)" .
  with r show "\<exists>r (w :: ('n, 'x) BuildState).
                  getTerminalOutput B net m t s = (Some r, w)
                \<and> getTerminalOutput B (removeNode b c net) m t s = (Some r, w)"
    by blast
qed

theorem unbuilt_node_passes_its_single_input_through_witness:
  "getNodeOutput sampleBackend chain (Suc (Suc 0)) (conn ''/b'' ''out'') (built chain)
     = getNodeOutput sampleBackend chain (Suc 0) (conn ''/a'' ''out'') (built chain)
   \<and> getTerminalOutput sampleBackend (removeNode ''/b'' (conn ''/a'' ''out'') chain)
        (Suc (Suc (Suc 0))) ''surface'' (built chain)
       = getTerminalOutput sampleBackend chain (Suc (Suc (Suc 0))) ''surface'' (built chain)
   \<and> fst (getTerminalOutput sampleBackend chain (Suc (Suc (Suc 0))) ''surface'' (built chain))
       = Some (VtMaterialNode (Some 2))
   \<and> getTerminalOutput sampleBackend chain (Suc (2 * Suc (Suc 0))) ''surface'' (built chain)
       = getTerminalOutput sampleBackend (removeNode ''/b'' (conn ''/a'' ''out'') chain)
           (Suc (Suc 0)) ''surface'' (built chain)"
proof -
  let ?nb = "mkNode ''unknown'' [] [(''in'', [conn ''/a'' ''out''])]"
  let ?c = "conn ''/a'' ''out''"
  let ?k = "conn ''/b'' ''out''"
  let ?s = "built chain"
  let ?s3 = "snd (getTerminalOutput sampleBackend chain (Suc (Suc (Suc 0))) ''surface'' ?s)"
  let ?s2 = "snd (getTerminalOutput sampleBackend (removeNode ''/b'' ?c chain) (Suc (Suc 0))
                    ''surface'' ?s)"
  let ?v = "VtMaterialNode (Some 2)"
  have h0: "map_of (nodes chain) ''/b'' = Some ?nb" "materialNodes ?s ''/b'' = None"
    by (simp_all add: chain_sample_defs)
  have h1: "upstreamNode ?k = ''/b''" by (simp add: conn_def)
  have h2: "inputConnections ?nb = (''in'', [?c]) # [] \<and> upstreamNode ?c \<noteq> ''/b''"
    by (simp add: conn_def mkNode_def)
  have h3: "getTerminalOutput sampleBackend chain (Suc (Suc (Suc 0))) ''surface'' ?s = (Some ?v, ?s3)"
    by (simp add: chain_sample_defs prod_eq_iff)
  have h4: "getTerminalOutput sampleBackend (removeNode ''/b'' ?c chain) (Suc (Suc 0)) ''surface'' ?s
              = (Some ?v, ?s2)"
    by (simp add: chain_sample_defs prod_eq_iff)
  have h5: "ranked chain chainRank
            \<and> list_all (\<lambda>t. chainRank (upstreamNode (snd t)) < Suc (Suc (Suc 0))) (terminals chain)"
    by (simp add: chain_sample_defs)
  have c: "(case inputConnections ?nb of
               [] \<Rightarrow> (Some VtEmpty, ?s)
             | (inputId, []) # rest \<Rightarrow> (Some VtEmpty, ?s)
             | (inputId, [connection]) # rest \<Rightarrow> getNodeOutput sampleBackend chain (Suc 0) connection ?s
             | (inputId, c1 # c2 # cs) # rest \<Rightarrow>
                 (Some VtEmpty, record_step Error_ConnectedArrayElements ?s))
           = getNodeOutput sampleBackend chain (Suc 0) ?c ?s"
    by (simp add: mkNode_def del: getNodeOutput.simps)
  note t3 = unbuilt_node_passes_its_single_input_through
         [OF h0, of ?k sampleBackend "Suc 0" "''in''" ?c "[]" "Suc (Suc (Suc 0))" "''surface''"
            ?v ?s3 chainRank]
  note t2 = unbuilt_node_passes_its_single_input_through
         [OF h0, of ?k sampleBackend "Suc 0" "''in''" ?c "[]" "Suc (Suc 0)" "''surface''"
            ?v ?s2 chainRank]
  from t3 h1 c have p1: "getNodeOutput sampleBackend chain (Suc (Suc 0)) ?k ?s
     = getNodeOutput sampleBackend chain (Suc 0) ?c ?s" by (simp del: getNodeOutput.simps)
  from t3 h2 h3 have p2: "getTerminalOutput sampleBackend (removeNode ''/b'' ?c chain)
        (Suc (Suc (Suc 0))) ''surface'' ?s = (Some ?v, ?s3)" by blast
  from t2 h2 h4 have p4: "getTerminalOutput sampleBackend chain (Suc (2 * Suc (Suc 0))) ''surface'' ?s
        = (Some ?v, ?s2)" by blast
  from p2 h3 have e2: "getTerminalOutput sampleBackend (removeNode ''/b'' ?c chain)
        (Suc (Suc (Suc 0))) ''surface'' ?s
       = getTerminalOutput sampleBackend chain (Suc (Suc (Suc 0))) ''surface'' ?s"
    by (simp only:)
  from h3 have e3: "fst (getTerminalOutput sampleBackend chain (Suc (Suc (Suc 0))) ''surface'' ?s)
       = Some ?v" by (metis fst_conv)
  from p4 h4 have e4: "getTerminalOutput sampleBackend chain (Suc (2 * Suc (Suc 0))) ''surface'' ?s
       = getTerminalOutput sampleBackend (removeNode ''/b'' ?c chain)
           (Suc (Suc 0)) ''surface'' ?s"
    by (simp only:)
  from p1 e2 e3 e4 show ?thesis by - (intro conjI, assumption+)
qed

text \<open>
  The node \<open>/u\<close> has no backend node and its first input has two connections, both to the
  built node \<open>/a\<close>. The first of them resolves to the output of \<open>/a\<close>; the connection to
  \<open>/u\<close> resolves to the empty value and reports the connected array elements.
\<close>

theorem two_connections_on_first_input_resolve_to_empty:
  "map_of (nodes arrayInput) ''/u''
     = Some (mkNode ''unknown'' [] [(''in'', [conn ''/a'' ''out'', conn ''/a'' ''out''])])
   \<and> materialNodes (built arrayInput) ''/u'' = None
   \<and> fst (getNodeOutput sampleBackend arrayInput (Suc (Suc 0)) (conn ''/a'' ''out'') (built arrayInput))
       = Some (VtMaterialNode (Some 1))
   \<and> fst (getNodeOutput sampleBackend arrayInput (Suc (Suc 0)) (conn ''/u'' ''out'') (built arrayInput))
       = Some VtEmpty
   \<and> trace (snd (getNodeOutput sampleBackend arrayInput (Suc (Suc 0)) (conn ''/u'' ''out'')
                    (built arrayInput)))
       = [Warn_UnknownNodeType ''unknown'', Error_ConnectedArrayElements]"
  by (simp add: chain_sample_defs)

end
